theory Spec2Isabelle
  imports Main
begin

section \<open>JavaScript values\<close>

text \<open>
  The engine is untyped JavaScript: stored tokens, endpoints, responses and errors are
  all plain values. Numbers are modelled as integers, with a separate not-a-number
  value; fractions and infinities are outside the model. Objects are association lists
  in insertion order (the engine uses no integer-like keys, which JavaScript would
  enumerate first), arrays are lists.
\<close>

datatype jsval =
    JUndefined
  | JNull
  | JBool bool
  | JNum int
  | JNaN
  | JStr string
  | JArr "jsval list"
  | JObj "(string \<times> jsval) list"

text \<open>The errors the language itself raises.\<close>

definition TypeError :: jsval where
  "TypeError = JObj [(''name'', JStr ''TypeError'')]"

definition ReferenceError :: jsval where
  "ReferenceError = JObj [(''name'', JStr ''ReferenceError'')]"

text \<open>Truthiness, as tested by \<^verbatim>\<open>if (x)\<close>, \<^verbatim>\<open>!x\<close> and \<^verbatim>\<open>x && y\<close>.\<close>

fun truthy :: "jsval \<Rightarrow> bool" where
  "truthy JUndefined = False"
| "truthy JNull = False"
| "truthy (JBool b) = b"
| "truthy (JNum n) = (n \<noteq> 0)"
| "truthy JNaN = False"
| "truthy (JStr s) = (s \<noteq> [])"
| "truthy (JArr xs) = True"
| "truthy (JObj kvs) = True"

fun nullish :: "jsval \<Rightarrow> bool" where
  "nullish JUndefined = True"
| "nullish JNull = True"
| "nullish v = False"

subsection \<open>Conversion to strings and numbers\<close>

fun string_of_nat :: "nat \<Rightarrow> string" where
  "string_of_nat n =
     (if n < 10 then [char_of (48 + n)]
      else string_of_nat (n div 10) @ [char_of (48 + n mod 10)])"

declare string_of_nat.simps [simp del]

definition string_of_int :: "int \<Rightarrow> string" where
  "string_of_int i = (if i < 0 then CHR ''-'' # string_of_nat (nat (- i)) else string_of_nat (nat i))"

fun join :: "string \<Rightarrow> string list \<Rightarrow> string" where
  "join sep [] = []"
| "join sep [x] = x"
| "join sep (x # y # ys) = x @ sep @ join sep (y # ys)"

text \<open>
  \<^verbatim>\<open>String(v)\<close>, as applied by \<^verbatim>\<open>+\<close> with a string operand and by a property key.
  A plain object prints as \<^verbatim>\<open>[object Object]\<close>; an array joins its elements with
  commas, printing \<^verbatim>\<open>undefined\<close> and \<^verbatim>\<open>null\<close> elements as nothing.
\<close>

fun js_to_string :: "jsval \<Rightarrow> string" where
  "js_to_string JUndefined = ''undefined''"
| "js_to_string JNull = ''null''"
| "js_to_string (JBool b) = (if b then ''true'' else ''false'')"
| "js_to_string (JNum n) = string_of_int n"
| "js_to_string JNaN = ''NaN''"
| "js_to_string (JStr s) = s"
| "js_to_string (JArr xs) =
     join '','' (map (\<lambda>x. if nullish x then [] else js_to_string x) xs)"
| "js_to_string (JObj kvs) = ''[object Object]''"

definition is_digit :: "char \<Rightarrow> bool" where
  "is_digit c = ((48::nat) \<le> of_char c \<and> (of_char c :: nat) \<le> 57)"

fun nat_of_digits :: "nat \<Rightarrow> string \<Rightarrow> nat" where
  "nat_of_digits acc [] = acc"
| "nat_of_digits acc (c # cs) = nat_of_digits (10 * acc + (of_char c - 48)) cs"

text \<open>
  \<^verbatim>\<open>Number(s)\<close> on a string: the empty string is 0, an optionally signed run of
  decimal digits is that integer, anything else is not a number (\<open>None\<close>). Surrounding
  white space, fractions, exponents and radix prefixes are outside the model.
\<close>

definition number_of_string :: "string \<Rightarrow> int option" where
  "number_of_string s =
     (if s = [] then Some 0
      else if hd s = CHR ''-'' \<and> tl s \<noteq> [] \<and> list_all is_digit (tl s)
        then Some (- int (nat_of_digits 0 (tl s)))
      else if hd s = CHR ''+'' \<and> tl s \<noteq> [] \<and> list_all is_digit (tl s)
        then Some (int (nat_of_digits 0 (tl s)))
      else if list_all is_digit s then Some (int (nat_of_digits 0 s))
      else None)"

text \<open>\<^verbatim>\<open>Number(v)\<close>; \<open>None\<close> is NaN. An object or array goes through its string.\<close>

fun to_number :: "jsval \<Rightarrow> int option" where
  "to_number JUndefined = None"
| "to_number JNull = Some 0"
| "to_number (JBool b) = Some (if b then 1 else 0)"
| "to_number (JNum n) = Some n"
| "to_number JNaN = None"
| "to_number (JStr s) = number_of_string s"
| "to_number (JArr xs) = number_of_string (js_to_string (JArr xs))"
| "to_number (JObj kvs) = number_of_string (js_to_string (JObj kvs))"

definition of_number :: "int option \<Rightarrow> jsval" where
  "of_number n = (case n of None \<Rightarrow> JNaN | Some i \<Rightarrow> JNum i)"

fun is_stringish :: "jsval \<Rightarrow> bool" where
  "is_stringish (JStr s) = True"
| "is_stringish (JArr xs) = True"
| "is_stringish (JObj kvs) = True"
| "is_stringish v = False"

text \<open>
  The operator \<^verbatim>\<open>a + b\<close>: concatenation as soon as one operand is a string (or an
  object, whose primitive is a string), numeric addition otherwise.
\<close>

definition js_add :: "jsval \<Rightarrow> jsval \<Rightarrow> jsval" where
  "js_add a b =
     (if is_stringish a \<or> is_stringish b then JStr (js_to_string a @ js_to_string b)
      else of_number (case (to_number a, to_number b) of
                        (Some x, Some y) \<Rightarrow> Some (x + y)
                      | _ \<Rightarrow> None))"

definition js_mul :: "jsval \<Rightarrow> jsval \<Rightarrow> jsval" where
  "js_mul a b =
     of_number (case (to_number a, to_number b) of
                  (Some x, Some y) \<Rightarrow> Some (x * y)
                | _ \<Rightarrow> None)"

text \<open>\<^verbatim>\<open>n >= v\<close> with a number on the left: numeric, false as soon as \<open>v\<close> is NaN.\<close>

definition js_ge :: "int \<Rightarrow> jsval \<Rightarrow> bool" where
  "js_ge n v = (case to_number v of None \<Rightarrow> False | Some m \<Rightarrow> m \<le> n)"

text \<open>\<^verbatim>\<open>v == n\<close> with a number on the right: \<^verbatim>\<open>null\<close> and \<^verbatim>\<open>undefined\<close> equal no number.\<close>

definition js_loose_eq_num :: "jsval \<Rightarrow> int \<Rightarrow> bool" where
  "js_loose_eq_num v n = (\<not> nullish v \<and> to_number v = Some n)"

text \<open>\<^verbatim>\<open>x | 0\<close>: truncation to a signed 32-bit integer.\<close>

definition to_int32 :: "int \<Rightarrow> int" where
  "to_int32 x = (x + 2147483648) mod 4294967296 - 2147483648"

text \<open>\<^verbatim>\<open>ms / 1000 | 0\<close>: the division truncates towards zero, then wraps to 32 bits.\<close>

definition seconds_of_ms :: "int \<Rightarrow> int" where
  "seconds_of_ms ms = to_int32 (if 0 \<le> ms then ms div 1000 else - ((- ms) div 1000))"

subsection \<open>Strings\<close>

text \<open>
  \<^verbatim>\<open>s.split(sep)\<close> for a non-empty separator: the pieces between the occurrences of
  \<open>sep\<close>, found left to right; an empty separator splits into single characters.
\<close>

function split_aux :: "string \<Rightarrow> string \<Rightarrow> string \<Rightarrow> string list" where
  "split_aux sep acc [] = [rev acc]"
| "split_aux sep acc (c # cs) =
     (if sep \<noteq> [] \<and> take (length sep) (c # cs) = sep
      then rev acc # split_aux sep [] (drop (length sep) (c # cs))
      else split_aux sep (c # acc) cs)"
  by pat_completeness auto
termination
  by (relation "measure (\<lambda>(sep, acc, s). length s)") auto

definition js_split :: "string \<Rightarrow> string \<Rightarrow> string list" where
  "js_split sep s = (if sep = [] then map (\<lambda>c. [c]) s else split_aux sep [] s)"

subsection \<open>Objects\<close>

text \<open>
  Reading a property: \<^verbatim>\<open>undefined.f\<close> and \<^verbatim>\<open>null.f\<close> raise a TypeError. The engine
  only reads the fixed keys \<^verbatim>\<open>response\<close>, \<^verbatim>\<open>status\<close>, \<^verbatim>\<open>data\<close>, \<^verbatim>\<open>headers\<close>,
  \<^verbatim>\<open>Authorization\<close>, \<^verbatim>\<open>propertyName\<close>, \<^verbatim>\<open>user_id\<close>, \<^verbatim>\<open>access_token_endpoint\<close>,
  \<^verbatim>\<open>client_id\<close> and the fields of a token response; none of them is a built-in
  property of a string, number, boolean or array, where the read gives \<^verbatim>\<open>undefined\<close>.
\<close>

fun get_prop :: "jsval \<Rightarrow> string \<Rightarrow> jsval + jsval" where
  "get_prop JUndefined k = Inl TypeError"
| "get_prop JNull k = Inl TypeError"
| "get_prop (JObj kvs) k = Inr (case map_of kvs k of None \<Rightarrow> JUndefined | Some v \<Rightarrow> v)"
| "get_prop v k = Inr JUndefined"

fun obj_set :: "string \<Rightarrow> jsval \<Rightarrow> (string \<times> jsval) list \<Rightarrow> (string \<times> jsval) list" where
  "obj_set k v [] = [(k, v)]"
| "obj_set k v ((k', v') # kvs) =
     (if k = k' then (k, v) # kvs else (k', v') # obj_set k v kvs)"

text \<open>
  Writing a property, in strict mode (the source is a module): on \<^verbatim>\<open>undefined\<close>,
  \<^verbatim>\<open>null\<close> and on a primitive the write raises a TypeError. An array that carries a
  named property is not a value of the model; a write to an array is a TypeError here,
  and the theorems about writes are stated for objects.
\<close>

fun set_prop :: "jsval \<Rightarrow> string \<Rightarrow> jsval \<Rightarrow> jsval + jsval" where
  "set_prop (JObj kvs) k v = Inr (JObj (obj_set k v kvs))"
| "set_prop w k v = Inl TypeError"

text \<open>The own enumerable properties \<^verbatim>\<open>Object.assign\<close> copies from a source.\<close>

fun own_props :: "jsval \<Rightarrow> (string \<times> jsval) list" where
  "own_props (JObj kvs) = kvs"
| "own_props (JArr xs) = zip (map string_of_nat [0..<length xs]) xs"
| "own_props (JStr s) = zip (map string_of_nat [0..<length s]) (map (\<lambda>c. JStr [c]) s)"
| "own_props v = []"

definition assign_into :: "(string \<times> jsval) list \<Rightarrow> jsval \<Rightarrow> (string \<times> jsval) list" where
  "assign_into tgt src = fold (\<lambda>(k, v). obj_set k v) (own_props src) tgt"

text \<open>\<^verbatim>\<open>Object.assign({}, defaults, endpoint)\<close>.\<close>

definition object_assign :: "jsval \<Rightarrow> jsval \<Rightarrow> jsval" where
  "object_assign defaults endpoint = JObj (assign_into (assign_into [] defaults) endpoint)"

text \<open>\<^verbatim>\<open>typeof v === 'object'\<close>, which \<^verbatim>\<open>null\<close> satisfies too.\<close>

fun typeof_object :: "jsval \<Rightarrow> bool" where
  "typeof_object JNull = True"
| "typeof_object (JArr xs) = True"
| "typeof_object (JObj kvs) = True"
| "typeof_object v = False"

section \<open>The engine's state and collaborators\<close>

subsection \<open>Key-value store\<close>

text \<open>
  Modelled from the spec: the class \<^verbatim>\<open>Storage\<close> (\<^verbatim>\<open>./storage\<close>) is not among the
  sources. The spec gives it an in-memory reactive tier (\<^verbatim>\<open>$state\<close>, what
  \<^verbatim>\<open>getState\<close> and \<^verbatim>\<open>setState\<close> use) and persisted tiers; a universal write goes to
  every tier, a universal read takes the in-memory value and falls back to the
  persisted one.
\<close>

record storage =
  sstate :: "string \<Rightarrow> jsval option"
  persisted :: "string \<Rightarrow> jsval option"

definition store_getState :: "storage \<Rightarrow> string \<Rightarrow> jsval" where
  "store_getState st k = (case sstate st k of None \<Rightarrow> JUndefined | Some v \<Rightarrow> v)"

definition store_setState :: "string \<Rightarrow> jsval \<Rightarrow> storage \<Rightarrow> storage" where
  "store_setState k v st = st\<lparr>sstate := (sstate st)(k \<mapsto> v)\<rparr>"

definition store_getUniversal :: "storage \<Rightarrow> string \<Rightarrow> jsval" where
  "store_getUniversal st k =
     (case sstate st k of
        Some v \<Rightarrow> v
      | None \<Rightarrow> (case persisted st k of None \<Rightarrow> JUndefined | Some v \<Rightarrow> v))"

definition store_setUniversal :: "string \<Rightarrow> jsval \<Rightarrow> storage \<Rightarrow> storage" where
  "store_setUniversal k v st =
     st\<lparr>sstate := (sstate st)(k \<mapsto> v), persisted := (persisted st)(k \<mapsto> v)\<rparr>"

subsection \<open>Strategies and listeners\<close>

text \<open>
  A strategy capability is foreign code. Calling it runs its synchronous part, which
  either throws or returns a promise; the promise settles later, resolved (\<open>Inr\<close>) or
  rejected (\<open>Inl\<close>). Both parts may change the store, and the store is all of the
  engine they are taken to change; what they send or report themselves is not the
  engine's doing and is not in its trace. A capability that returns a plain value
  returns a promise already resolved with it.
\<close>

datatype promise = Promise "storage \<Rightarrow> (jsval + jsval) \<times> storage"

datatype started = Throws jsval | Returns promise

type_synonym hook = "storage \<Rightarrow> started \<times> storage"

record strategy =
  sname :: jsval
  soptions :: jsval
  s_mounted :: "hook option"
  s_login :: "hook option"
  s_fetchUser :: "hook option"
  s_logout :: "hook option"
  s_reset :: "hook option"
  s_setToken :: "(jsval \<Rightarrow> storage \<Rightarrow> jsval option \<times> storage) option"

text \<open>An error listener is called with the error and the payload; \<open>Some\<close> is a throw.\<close>

type_synonym listener = "jsval \<Rightarrow> jsval \<Rightarrow> storage \<Rightarrow> jsval option \<times> storage"

subsection \<open>Observable effects\<close>

text \<open>
  What the engine itself does is recorded in order: requests handed to the transport
  (tagged with the place in the source that issues them), store writes, reports to the
  error listeners, notifications to the loading indicator, navigation, and the entry
  into the methods the properties count.
\<close>

datatype site = TokenExchange | CredentialFetch | ProfileSync | Dispatch

datatype event =
    Axios site jsval
  | SetUniversal string jsval
  | SetState string jsval
  | CallOnError jsval jsval
  | LoadingFinish
  | LoadingFail
  | Enter string
  | Invoke string
  | RouterRedirect jsval
  | LocationReplace jsval
  | CookieRemove string

subsection \<open>Configuration and collaborators\<close>

text \<open>
  \<open>env\<close> is what the engine never changes: its options, the route, the execution
  context, the transport and the clock. The transport answers a request from the
  requests made before it and the request itself; the clock is read at a point of the
  trace. \<^verbatim>\<open>isSet\<close>, \<^verbatim>\<open>isSameURL\<close>, \<^verbatim>\<open>isRelativeURL\<close> and \<^verbatim>\<open>encodeQuery\<close>
  (\<^verbatim>\<open>./utilities\<close>) and \<^verbatim>\<open>getProp\<close> (the package dotprop) are not among the
  sources and are parameters.
\<close>

record env =
  token_prefix :: string
  refresh_prefix :: string
  base_url :: jsval
  redirect_opt :: jsval
  fullPathRedirect :: bool
  rewriteRedirects :: bool
  route_path :: jsval
  route_fullPath :: jsval
  process_browser :: bool
  process_server :: bool
  window_defined :: bool
  transport :: "jsval list \<Rightarrow> jsval \<Rightarrow> jsval + jsval"
  clock :: "nat \<Rightarrow> int"
  isSet :: "jsval \<Rightarrow> bool"
  isSameURL :: "jsval \<Rightarrow> jsval \<Rightarrow> bool"
  isRelativeURL :: "jsval \<Rightarrow> bool"
  encodeQuery :: "jsval \<Rightarrow> jsval"
  getProp :: "jsval \<Rightarrow> jsval \<Rightarrow> jsval"

record auth =
  strategies :: "string \<Rightarrow> strategy option"
  errorListeners :: "listener list"
  store :: storage
  last_error :: jsval
  cookies :: "string \<Rightarrow> jsval option"
  trace :: "event list"

subsection \<open>Outcomes and promise chains\<close>

text \<open>
  A call either returns (a value, or a promise that resolves), returns a promise that
  rejects, or throws synchronously. The chain is run to its settlement; other tasks
  interleaving at the suspension points are outside the model.
\<close>

datatype 'a outcome = Resolved 'a | Rejected jsval | Thrown jsval

type_synonym 'a act = "auth \<Rightarrow> 'a outcome \<times> auth"

definition ret :: "'a \<Rightarrow> 'a act" where
  "ret v a = (Resolved v, a)"

definition reject :: "jsval \<Rightarrow> 'a act" where
  "reject err a = (Rejected err, a)"

definition throw :: "jsval \<Rightarrow> 'a act" where
  "throw err a = (Thrown err, a)"

text \<open>One statement after another: the second runs when the first returns.\<close>

definition seq :: "'a act \<Rightarrow> ('a \<Rightarrow> 'b act) \<Rightarrow> 'b act" where
  "seq m f a =
     (case m a of
        (Resolved x, a') \<Rightarrow> f x a'
      | (Rejected err, a') \<Rightarrow> (Rejected err, a')
      | (Thrown err, a') \<Rightarrow> (Thrown err, a'))"

text \<open>A step that may raise, and a plain update of the state.\<close>

definition attempt :: "jsval + 'a \<Rightarrow> ('a \<Rightarrow> 'b act) \<Rightarrow> 'b act" where
  "attempt r f a = (case r of Inl err \<Rightarrow> (Thrown err, a) | Inr x \<Rightarrow> f x a)"

definition exec :: "(auth \<Rightarrow> auth) \<Rightarrow> 'b act \<Rightarrow> 'b act" where
  "exec u k a = k (u a)"

text \<open>Reading from the state, which leaves it as it is.\<close>

definition reading :: "(auth \<Rightarrow> 'x) \<Rightarrow> ('x \<Rightarrow> 'b act) \<Rightarrow> 'b act" where
  "reading g k a = k (g a) a"

text \<open>A throw inside a callback or an async function rejects the promise.\<close>

fun settle :: "'a outcome \<times> auth \<Rightarrow> 'a outcome \<times> auth" where
  "settle (Thrown err, a) = (Rejected err, a)"
| "settle r = r"

definition async :: "'a act \<Rightarrow> 'a act" where
  "async m a = settle (m a)"

text \<open>\<^verbatim>\<open>p.then(f)\<close> and \<^verbatim>\<open>p.catch(h)\<close>; a throw while \<open>p\<close> is built escapes both.\<close>

definition on_resolve :: "'a act \<Rightarrow> ('a \<Rightarrow> 'b act) \<Rightarrow> 'b act" where
  "on_resolve m f a =
     (case m a of
        (Resolved x, a') \<Rightarrow> settle (f x a')
      | (Rejected err, a') \<Rightarrow> (Rejected err, a')
      | (Thrown err, a') \<Rightarrow> (Thrown err, a'))"

definition on_reject :: "'a act \<Rightarrow> (jsval \<Rightarrow> 'a act) \<Rightarrow> 'a act" where
  "on_reject m h a =
     (case m a of
        (Rejected err, a') \<Rightarrow> settle (h err a')
      | r \<Rightarrow> r)"

text \<open>Calling a capability: the synchronous part now, the settlement in the chain.\<close>

definition start_hook :: "string \<Rightarrow> hook \<Rightarrow> promise act" where
  "start_hook name h a =
     (let a1 = a\<lparr>trace := trace a @ [Invoke name]\<rparr> in
      case h (store a1) of
        (Throws err, st) \<Rightarrow> (Thrown err, a1\<lparr>store := st\<rparr>)
      | (Returns p, st) \<Rightarrow> (Resolved p, a1\<lparr>store := st\<rparr>))"

text \<open>\<^verbatim>\<open>Promise.resolve(p)\<close>: the chain waits for \<open>p\<close> to settle.\<close>

fun await :: "promise \<Rightarrow> jsval act" where
  "await (Promise p) a =
     (case p (store a) of
        (Inl err, st) \<Rightarrow> (Rejected err, a\<lparr>store := st\<rparr>)
      | (Inr v, st) \<Rightarrow> (Resolved v, a\<lparr>store := st\<rparr>))"

subsection \<open>Store access, clock, transport\<close>

definition getState :: "auth \<Rightarrow> string \<Rightarrow> jsval" where
  "getState a k = store_getState (store a) k"

definition setState :: "string \<Rightarrow> jsval \<Rightarrow> auth \<Rightarrow> auth" where
  "setState k v a =
     a\<lparr>store := store_setState k v (store a), trace := trace a @ [SetState k v]\<rparr>"

definition getUniversal :: "auth \<Rightarrow> string \<Rightarrow> jsval" where
  "getUniversal a k = store_getUniversal (store a) k"

definition setUniversal :: "string \<Rightarrow> jsval \<Rightarrow> auth \<Rightarrow> auth" where
  "setUniversal k v a =
     a\<lparr>store := store_setUniversal k v (store a), trace := trace a @ [SetUniversal k v]\<rparr>"

definition date_now :: "env \<Rightarrow> auth \<Rightarrow> int" where
  "date_now e a = clock e (length (trace a))"

fun requests :: "event list \<Rightarrow> jsval list" where
  "requests [] = []"
| "requests (Axios s p # evs) = p # requests evs"
| "requests (ev # evs) = requests evs"

text \<open>\<^verbatim>\<open>this.ctx.app.$axios.request(payload)\<close>, awaited.\<close>

definition axios_request :: "env \<Rightarrow> site \<Rightarrow> jsval \<Rightarrow> jsval act" where
  "axios_request e s p a =
     (case transport e (requests (trace a)) p of
        Inl err \<Rightarrow> (Rejected err, a\<lparr>trace := trace a @ [Axios s p]\<rparr>)
      | Inr r \<Rightarrow> (Resolved r, a\<lparr>trace := trace a @ [Axios s p]\<rparr>))"

text \<open>The same request with its promise dropped: only the sending is the engine's.\<close>

definition axios_send :: "site \<Rightarrow> jsval \<Rightarrow> auth \<Rightarrow> auth" where
  "axios_send s p a = a\<lparr>trace := trace a @ [Axios s p]\<rparr>"

text \<open>
  \<^verbatim>\<open>$loading()\<close> reads the global \<^verbatim>\<open>window\<close>, a ReferenceError where none is
  declared. The first file calls it unguarded; the second only outside the server.
\<close>

definition loading :: "env \<Rightarrow> event \<Rightarrow> jsval act" where
  "loading e ev a =
     (if window_defined e then (Resolved JUndefined, a\<lparr>trace := trace a @ [ev]\<rparr>)
      else (Thrown ReferenceError, a))"

definition loading_alt :: "env \<Rightarrow> event \<Rightarrow> jsval act" where
  "loading_alt e ev a =
     (if \<not> process_server e then loading e ev a else (Resolved JUndefined, a))"

section \<open>The engine\<close>

text \<open>
  The class \<^verbatim>\<open>Auth\<close> exists in two files. The definitions below follow
  \<^verbatim>\<open>src/lib/core/auth.js\<close>; where \<^verbatim>\<open>src/unnamed/part_000\<close> differs, its version has
  the same name with the suffix \<open>_alt\<close>. Methods not named twice are the same in both.
\<close>

subsection \<open>Strategy and scheme\<close>

text \<open>
  \<^verbatim>\<open>get strategy ()\<close>: the registry entry under the name held in \<^verbatim>\<open>$state.strategy\<close>.
  Reading a property of it when there is none is a TypeError.
\<close>

definition strategy_of :: "auth \<Rightarrow> strategy option" where
  "strategy_of a = strategies a (js_to_string (getState a ''strategy''))"

definition with_strategy :: "(strategy \<Rightarrow> 'a act) \<Rightarrow> 'a act" where
  "with_strategy f a = (case strategy_of a of None \<Rightarrow> (Thrown TypeError, a) | Some s \<Rightarrow> f s a)"

definition registerStrategy :: "string \<Rightarrow> strategy \<Rightarrow> auth \<Rightarrow> auth" where
  "registerStrategy name strategy a = a\<lparr>strategies := (strategies a)(name \<mapsto> strategy)\<rparr>"

definition enter :: "string \<Rightarrow> auth \<Rightarrow> auth" where
  "enter name a = a\<lparr>trace := trace a @ [Enter name]\<rparr>"

subsection \<open>Error listeners\<close>

definition onError :: "listener \<Rightarrow> auth \<Rightarrow> auth" where
  "onError l a = a\<lparr>errorListeners := errorListeners a @ [l]\<rparr>"

fun run_listeners :: "listener list \<Rightarrow> jsval \<Rightarrow> jsval \<Rightarrow> storage \<Rightarrow> jsval option \<times> storage" where
  "run_listeners [] err payload st = (None, st)"
| "run_listeners (l # ls) err payload st =
     (case l err payload st of
        (Some ex, st') \<Rightarrow> (Some ex, st')
      | (None, st') \<Rightarrow> run_listeners ls err payload st')"

definition callOnError :: "jsval \<Rightarrow> jsval \<Rightarrow> jsval act" where
  "callOnError err payload a =
     (let a1 = a\<lparr>last_error := err, trace := trace a @ [CallOnError err payload]\<rparr> in
      case run_listeners (errorListeners a1) err payload (store a1) of
        (Some ex, st) \<Rightarrow> (Thrown ex, a1\<lparr>store := st\<rparr>)
      | (None, st) \<Rightarrow> (Resolved JUndefined, a1\<lparr>store := st\<rparr>))"

definition method_payload :: "string \<Rightarrow> jsval" where
  "method_payload m = JObj [(''method'', JStr m)]"

text \<open>The handler every delegating method attaches: report, then reject again.\<close>

definition report :: "string \<Rightarrow> jsval \<Rightarrow> jsval act" where
  "report m err = seq (callOnError err (method_payload m)) (\<lambda>_. reject err)"

subsection \<open>Token helpers\<close>

definition getToken :: "env \<Rightarrow> auth \<Rightarrow> jsval \<Rightarrow> jsval" where
  "getToken e a strategy = getUniversal a (token_prefix e @ js_to_string strategy)"

definition setToken :: "env \<Rightarrow> jsval \<Rightarrow> jsval \<Rightarrow> auth \<Rightarrow> auth" where
  "setToken e strategy token = setUniversal (token_prefix e @ js_to_string strategy) token"

definition getRefreshToken :: "env \<Rightarrow> auth \<Rightarrow> jsval \<Rightarrow> jsval" where
  "getRefreshToken e a strategy = getUniversal a (refresh_prefix e @ js_to_string strategy)"

definition setRefreshToken :: "env \<Rightarrow> jsval \<Rightarrow> jsval \<Rightarrow> auth \<Rightarrow> auth" where
  "setRefreshToken e strategy refreshToken =
     setUniversal (refresh_prefix e @ js_to_string strategy) refreshToken"

definition getTokenExpiration :: "env \<Rightarrow> auth \<Rightarrow> jsval \<Rightarrow> jsval" where
  "getTokenExpiration e a strategy =
     getUniversal a (token_prefix e @ ''expiration.'' @ js_to_string strategy)"

definition setTokenExpiration :: "env \<Rightarrow> jsval \<Rightarrow> jsval \<Rightarrow> auth \<Rightarrow> auth" where
  "setTokenExpiration e strategy tokenExpiration =
     setUniversal (token_prefix e @ ''expiration.'' @ js_to_string strategy) tokenExpiration"

text \<open>
  \<^verbatim>\<open>v.split(sep)\<close> as a method call: only a string has the method, so on every other
  value the call is a TypeError (no property of \<^verbatim>\<open>undefined\<close>, or not a function).
\<close>

fun split_method :: "jsval \<Rightarrow> string \<Rightarrow> jsval + jsval" where
  "split_method (JStr s) sep = Inr (JArr (map JStr (js_split sep s)))"
| "split_method v sep = Inl TypeError"

definition getTokenScope :: "env \<Rightarrow> jsval \<Rightarrow> jsval act" where
  "getTokenScope e strategy =
     reading (\<lambda>a. getUniversal a (token_prefix e @ ''scope.'' @ js_to_string strategy))
       (\<lambda>stored. attempt (split_method stored '' '') ret)"

definition setTokenScope :: "env \<Rightarrow> jsval \<Rightarrow> jsval \<Rightarrow> auth \<Rightarrow> auth" where
  "setTokenScope e strategy tokenScope =
     setUniversal (token_prefix e @ ''scope.'' @ js_to_string strategy) tokenScope"

text \<open>\<^verbatim>\<open>xs[1]\<close> on the array a split returns.\<close>

fun index1 :: "jsval \<Rightarrow> jsval" where
  "index1 (JArr (x # y # ys)) = y"
| "index1 v = JUndefined"

text \<open>\<^verbatim>\<open>this.strategy._setToken(token)\<close>: a TypeError when the strategy has no such method.\<close>

definition call_setToken :: "jsval \<Rightarrow> jsval act" where
  "call_setToken token =
     with_strategy (\<lambda>s a.
       case s_setToken s of
         None \<Rightarrow> (Thrown TypeError, a)
       | Some f \<Rightarrow>
           (let a1 = a\<lparr>trace := trace a @ [Invoke ''_setToken'']\<rparr> in
            case f token (store a1) of
              (Some err, st) \<Rightarrow> (Thrown err, a1\<lparr>store := st\<rparr>)
            | (None, st) \<Rightarrow> (Resolved JUndefined, a1\<lparr>store := st\<rparr>)))"

subsection \<open>Dispatching a request\<close>

definition merged_endpoint :: "jsval \<Rightarrow> jsval \<Rightarrow> jsval" where
  "merged_endpoint endpoint defaults =
     (if typeof_object defaults then object_assign defaults endpoint else endpoint)"

text \<open>The callback both files run on the response of the dispatched request.\<close>

definition extract_result :: "env \<Rightarrow> jsval \<Rightarrow> jsval \<Rightarrow> jsval act" where
  "extract_result e ep response =
     attempt (get_prop ep ''propertyName'') (\<lambda>pn.
       if truthy pn then attempt (get_prop response ''data'') (\<lambda>d. ret (getProp e d pn))
       else attempt (get_prop response ''data'') ret)"

definition completeRequest :: "env \<Rightarrow> jsval \<Rightarrow> jsval \<Rightarrow> jsval act" where
  "completeRequest e endpoint defaults =
     (let ep = merged_endpoint endpoint defaults in
      on_reject
        (on_resolve (axios_request e Dispatch ep)
           (\<lambda>response. seq (loading e LoadingFinish) (\<lambda>_. extract_result e ep response)))
        (\<lambda>err. seq (loading e LoadingFail) (\<lambda>_. report ''completeRequest'' err)))"

definition completeRequest_alt :: "env \<Rightarrow> jsval \<Rightarrow> jsval \<Rightarrow> jsval act" where
  "completeRequest_alt e endpoint defaults =
     (let ep = merged_endpoint endpoint defaults in
      on_resolve (axios_request e Dispatch ep)
        (\<lambda>response. seq (loading_alt e LoadingFinish) (\<lambda>_. extract_result e ep response)))"

subsection \<open>The token-endpoint exchange\<close>

definition exchange_payload :: "env \<Rightarrow> strategy \<Rightarrow> jsval \<Rightarrow> jsval + jsval" where
  "exchange_payload e strategy refresh_token =
     (case get_prop (soptions strategy) ''access_token_endpoint'' of
        Inl err \<Rightarrow> Inl err
      | Inr url \<Rightarrow>
          (case get_prop (soptions strategy) ''client_id'' of
             Inl err \<Rightarrow> Inl err
           | Inr client_id \<Rightarrow>
               Inr (JObj [(''method'', JStr ''post''), (''url'', url), (''baseURL'', JBool False),
                          (''data'', encodeQuery e (JObj [(''client_id'', client_id),
                                                         (''refresh_token'', refresh_token),
                                                         (''grant_type'', JStr ''refresh_token'')]))])))"

definition exchange_payload_alt :: "env \<Rightarrow> strategy \<Rightarrow> jsval \<Rightarrow> jsval + jsval" where
  "exchange_payload_alt e strategy refresh_token =
     (case get_prop (soptions strategy) ''access_token_endpoint'' of
        Inl err \<Rightarrow> Inl err
      | Inr url \<Rightarrow>
          (case get_prop (soptions strategy) ''client_id'' of
             Inl err \<Rightarrow> Inl err
           | Inr client_id \<Rightarrow>
               Inr (JObj [(''method'', JStr ''post''), (''url'', url), (''baseURL'', JBool False),
                          (''headers'', JObj [(''Content-Type'', JStr ''application/x-www-form-urlencoded'')]),
                          (''data'', encodeQuery e (JObj [(''client_id'', client_id),
                                                         (''refresh_token'', refresh_token),
                                                         (''grant_type'', JStr ''refresh_token'')]))])))"

text \<open>
  The pre-flight test of \<^verbatim>\<open>request\<close>. The first file compares the clock in whole
  seconds (\<^verbatim>\<open>now.getTime() / 1000 | 0\<close>), the second in milliseconds (\<^verbatim>\<open>Date.now()\<close>).
\<close>

definition token_expired :: "env \<Rightarrow> auth \<Rightarrow> strategy \<Rightarrow> bool" where
  "token_expired e a strategy =
     (truthy (getTokenExpiration e a (sname strategy)) \<and>
      truthy (getRefreshToken e a (sname strategy)) \<and>
      js_ge (seconds_of_ms (date_now e a)) (getTokenExpiration e a (sname strategy)))"

definition token_expired_alt :: "env \<Rightarrow> auth \<Rightarrow> strategy \<Rightarrow> bool" where
  "token_expired_alt e a strategy =
     (truthy (getTokenExpiration e a (sname strategy)) \<and>
      truthy (getRefreshToken e a (sname strategy)) \<and>
      js_ge (date_now e a) (getTokenExpiration e a (sname strategy)))"

text \<open>
  What both files read from the response of the exchange before they store anything:
  the access token with its type in front, the refresh token, the lifetime, the scope.
\<close>

definition read_token_response :: "jsval \<Rightarrow> jsval + (jsval \<times> jsval \<times> jsval \<times> jsval)" where
  "read_token_response response =
     (case get_prop response ''data'' of
        Inl err \<Rightarrow> Inl err
      | Inr d \<Rightarrow>
          (case get_prop d ''token_type'' of
             Inl err \<Rightarrow> Inl err
           | Inr token_type \<Rightarrow>
               (case get_prop d ''access_token'' of
                  Inl err \<Rightarrow> Inl err
                | Inr access_token \<Rightarrow>
                    (case get_prop d ''refresh_token'' of
                       Inl err \<Rightarrow> Inl err
                     | Inr refresh_token \<Rightarrow>
                         (case get_prop d ''expires_in'' of
                            Inl err \<Rightarrow> Inl err
                          | Inr expires_in \<Rightarrow>
                              (case get_prop d ''scope'' of
                                 Inl err \<Rightarrow> Inl err
                               | Inr scope \<Rightarrow>
                                   Inr (js_add (js_add token_type (JStr '' '')) access_token,
                                        refresh_token, expires_in, scope)))))))"

subsection \<open>\<^verbatim>\<open>request\<close> in \<^verbatim>\<open>src/lib/core/auth.js\<close>\<close>

text \<open>The callback on the response of the exchange.\<close>

definition request_refreshed :: "env \<Rightarrow> strategy \<Rightarrow> int \<Rightarrow> jsval \<Rightarrow> jsval \<Rightarrow> jsval \<Rightarrow> jsval act" where
  "request_refreshed e strategy now endpoint defaults response =
     attempt (read_token_response response)
       (\<lambda>(access_token, refresh_token, expires_in, scope).
          exec (setToken e (sname strategy) access_token)
         (exec (setRefreshToken e (sname strategy) refresh_token)
         (exec (setTokenExpiration e (sname strategy) (js_add expires_in (JNum now)))
         (exec (setTokenScope e (sname strategy) scope)
         (seq (call_setToken access_token)
            (\<lambda>_. completeRequest e endpoint defaults))))))"

definition request :: "env \<Rightarrow> jsval \<Rightarrow> jsval \<Rightarrow> jsval act" where
  "request e endpoint defaults =
     async (with_strategy (\<lambda>strategy.
       reading (\<lambda>a. getRefreshToken e a (sname strategy)) (\<lambda>refresh_token.
       reading (\<lambda>a. seconds_of_ms (date_now e a)) (\<lambda>now.
       reading (\<lambda>a. token_expired e a strategy) (\<lambda>expired.
         if expired then
           attempt (exchange_payload e strategy refresh_token) (\<lambda>payload.
             on_reject
               (on_resolve (axios_request e TokenExchange payload)
                  (request_refreshed e strategy now endpoint defaults))
               (\<lambda>_. completeRequest e endpoint defaults))
         else completeRequest e endpoint defaults)))))"

text \<open>
  \<^verbatim>\<open>setUser\<close> calls \<^verbatim>\<open>request\<close> and drops the promise. \<^verbatim>\<open>request\<close> runs without
  suspending up to its first call of the transport, if it gets that far: this is what
  has happened when \<^verbatim>\<open>setUser\<close> goes on, and \<open>request_started\<close> is the state then. The
  rest of the chain, \<open>request_pending\<close>, is left pending with what it has read at the
  start; it runs when the transport answers, on the state it finds then. Run at once,
  the two make up \<^verbatim>\<open>request\<close> (lemma \<open>request_started_pending\<close>).
\<close>

definition request_started :: "env \<Rightarrow> jsval \<Rightarrow> jsval \<Rightarrow> auth \<Rightarrow> auth" where
  "request_started e endpoint defaults a =
     (case strategy_of a of
        None \<Rightarrow> a
      | Some strategy \<Rightarrow>
          if token_expired e a strategy then
            (case exchange_payload e strategy (getRefreshToken e a (sname strategy)) of
               Inl err \<Rightarrow> a
             | Inr payload \<Rightarrow> axios_send TokenExchange payload a)
          else axios_send Dispatch (merged_endpoint endpoint defaults) a)"

text \<open>The answer of the transport to a request sent before, as it reaches the chain.\<close>

definition answered :: "jsval + jsval \<Rightarrow> jsval act" where
  "answered r a = (case r of Inl err \<Rightarrow> (Rejected err, a) | Inr response \<Rightarrow> (Resolved response, a))"

definition completeRequest_pending :: "env \<Rightarrow> jsval \<Rightarrow> jsval \<Rightarrow> jsval + jsval \<Rightarrow> jsval act" where
  "completeRequest_pending e endpoint defaults r =
     (let ep = merged_endpoint endpoint defaults in
      on_reject
        (on_resolve (answered r)
           (\<lambda>response. seq (loading e LoadingFinish) (\<lambda>_. extract_result e ep response)))
        (\<lambda>err. seq (loading e LoadingFail) (\<lambda>_. report ''completeRequest'' err)))"

definition request_pending :: "env \<Rightarrow> jsval \<Rightarrow> jsval \<Rightarrow> auth \<Rightarrow> jsval act" where
  "request_pending e endpoint defaults a0 =
     (case strategy_of a0 of
        None \<Rightarrow> throw TypeError
      | Some strategy \<Rightarrow>
          if token_expired e a0 strategy then
            (case exchange_payload e strategy (getRefreshToken e a0 (sname strategy)) of
               Inl err \<Rightarrow> throw err
             | Inr payload \<Rightarrow>
                 on_reject
                   (on_resolve (answered (transport e (requests (trace a0)) payload))
                      (request_refreshed e strategy (seconds_of_ms (date_now e a0)) endpoint defaults))
                   (\<lambda>_. completeRequest e endpoint defaults))
          else completeRequest_pending e endpoint defaults
                 (transport e (requests (trace a0)) (merged_endpoint endpoint defaults)))"

subsection \<open>User helpers\<close>

text \<open>
  The data both files send to the update endpoint. The token without its type, the
  refresh token and the scope are read for \<^verbatim>\<open>this.strategy.name\<close>, in this order; the
  two splits raise when the stored value is not a string.
\<close>

definition user_data :: "env \<Rightarrow> jsval \<Rightarrow> jsval act" where
  "user_data e user =
     with_strategy (\<lambda>s.
       reading (\<lambda>a. getToken e a (sname s)) (\<lambda>token.
       attempt (split_method token ''Bearer '') (\<lambda>parts.
       reading (\<lambda>a. getRefreshToken e a (sname s)) (\<lambda>refresh_token.
       seq (getTokenScope e (sname s)) (\<lambda>scope.
         ret (JObj [(''user'', user),
                    (''access_token'', index1 parts),
                    (''refresh_token'', refresh_token),
                    (''scope'', scope)]))))))"

definition update_request :: "env \<Rightarrow> jsval \<Rightarrow> jsval" where
  "update_request e data =
     JObj [(''method'', JStr ''post''),
           (''url'', js_add (base_url e) (JStr ''/api/users/update/'')),
           (''data'', data)]"

definition setUser :: "env \<Rightarrow> jsval \<Rightarrow> jsval act" where
  "setUser e user =
     exec (setState ''loggedIn'' (JBool (truthy user)))
    (exec (setState ''user'' user)
    (seq (user_data e user) (\<lambda>data.
       exec (request_started e (update_request e data) JUndefined)
         (ret JUndefined))))"

text \<open>The chain that \<^verbatim>\<open>setUser\<close>, called on \<open>a\<close>, leaves pending when it returns.\<close>

definition setUser_pending :: "env \<Rightarrow> jsval \<Rightarrow> auth \<Rightarrow> jsval act" where
  "setUser_pending e user a =
     (case user_data e user (setState ''user'' user (setState ''loggedIn'' (JBool (truthy user)) a)) of
        (Resolved data, a') \<Rightarrow> async (request_pending e (update_request e data) JUndefined a')
      | _ \<Rightarrow> ret JUndefined)"

definition updateUser :: "env \<Rightarrow> jsval \<Rightarrow> jsval act" where
  "updateUser e user =
     seq (user_data e user) (\<lambda>data.
       exec (axios_send ProfileSync
               (JObj [(''method'', JStr ''post''),
                      (''url'', js_add (base_url e) (JStr ''/api/users/update/'')),
                      (''baseURL'', JBool False),
                      (''data'', data)]))
         (ret JUndefined))"

definition setUser_alt :: "env \<Rightarrow> jsval \<Rightarrow> jsval act" where
  "setUser_alt e user =
     exec (setState ''loggedIn'' (JBool (truthy user)))
    (exec (setState ''user'' user)
    (updateUser e user))"



subsection \<open>\<^verbatim>\<open>refreshToken\<close>, \<^verbatim>\<open>getDBAuth\<close> and \<^verbatim>\<open>request\<close> in \<^verbatim>\<open>src/unnamed/part_000\<close>\<close>

text \<open>The callback of \<^verbatim>\<open>refreshToken\<close> on the response of the exchange.\<close>

definition refreshToken_done :: "env \<Rightarrow> jsval \<Rightarrow> jsval act" where
  "refreshToken_done e response =
     attempt (read_token_response response)
       (\<lambda>(accessToken, refreshToken, expires_in, scope).
          reading (date_now e) (\<lambda>now.
          with_strategy (\<lambda>s1. exec (setToken e (sname s1) accessToken)
         (with_strategy (\<lambda>s2. exec (setRefreshToken e (sname s2) refreshToken)
         (with_strategy (\<lambda>s3. exec (setTokenExpiration e (sname s3)
                                       (js_add (js_mul expires_in (JNum 1000)) (JNum now)))
         (with_strategy (\<lambda>s4. exec (setTokenScope e (sname s4) scope)
         (seq (call_setToken accessToken) (\<lambda>_.
          reading (\<lambda>a. getState a ''user'') (\<lambda>user.
          seq (updateUser e user) (\<lambda>_. ret JUndefined)))))))))))))"

definition refreshToken :: "env \<Rightarrow> jsval act" where
  "refreshToken e =
     exec (enter ''refreshToken'')
    (with_strategy (\<lambda>s.
       reading (\<lambda>a. getRefreshToken e a (sname s)) (\<lambda>refresh_token.
       attempt (exchange_payload_alt e s refresh_token) (\<lambda>payload.
         on_resolve (axios_request e TokenExchange payload) (refreshToken_done e)))))"

text \<open>The callback of \<^verbatim>\<open>getDBAuth\<close> on the response of the credential endpoint.\<close>

definition getDBAuth_done :: "env \<Rightarrow> jsval \<Rightarrow> jsval act" where
  "getDBAuth_done e auth' =
     with_strategy (\<lambda>s1. attempt (get_prop auth' ''access_token'') (\<lambda>access_token.
       exec (setToken e (sname s1) access_token)
      (with_strategy (\<lambda>s2. attempt (get_prop auth' ''refresh_token'') (\<lambda>refresh_token.
       exec (setRefreshToken e (sname s2) refresh_token)
      (seq (call_setToken access_token)
         (\<lambda>_. on_resolve (refreshToken e) (\<lambda>_. ret JUndefined))))))))"

definition credential_request :: "env \<Rightarrow> jsval \<Rightarrow> jsval" where
  "credential_request e user_id =
     JObj [(''method'', JStr ''get''),
           (''url'', js_add (js_add (base_url e) (JStr ''/api/users/get/auth/?user_id='')) user_id),
           (''baseURL'', JBool False)]"

definition getDBAuth :: "env \<Rightarrow> jsval act" where
  "getDBAuth e =
     exec (enter ''getDBAuth'')
    (reading (\<lambda>a. getState a ''user'') (\<lambda>user.
       if \<not> truthy user then reject JUndefined
       else
         attempt (get_prop user ''user_id'') (\<lambda>user_id.
           on_resolve (axios_request e CredentialFetch (credential_request e user_id))
             (getDBAuth_done e))))"

text \<open>The handler \<^verbatim>\<open>request\<close> of the second file repeats three times.\<close>

definition fail_request :: "env \<Rightarrow> jsval \<Rightarrow> jsval act" where
  "fail_request e err = seq (loading_alt e LoadingFail) (\<lambda>_. report ''completeRequest'' err)"

text \<open>The chain tried on status 400: credentials, refresh, the request itself.\<close>

definition recovery :: "env \<Rightarrow> jsval \<Rightarrow> jsval \<Rightarrow> jsval act" where
  "recovery e endpoint defaults =
     on_resolve (getDBAuth e)
       (\<lambda>_. on_resolve (refreshToken e) (\<lambda>_. completeRequest_alt e endpoint defaults))"

text \<open>The handler on a failed refresh: the status decides between recovery and failure.\<close>

definition request_alt_failed :: "env \<Rightarrow> jsval \<Rightarrow> jsval \<Rightarrow> jsval \<Rightarrow> jsval act" where
  "request_alt_failed e endpoint defaults err =
     attempt (get_prop err ''response'') (\<lambda>response.
     attempt (get_prop response ''status'') (\<lambda>status.
       if js_loose_eq_num status 400 then
         on_reject (recovery e endpoint defaults) (fail_request e)
       else fail_request e err))"

definition request_alt :: "env \<Rightarrow> jsval \<Rightarrow> jsval \<Rightarrow> jsval act" where
  "request_alt e endpoint defaults =
     async (with_strategy (\<lambda>s.
       reading (\<lambda>a. token_expired_alt e a s) (\<lambda>expired.
         if expired then
           on_reject
             (on_resolve (refreshToken e) (\<lambda>_. completeRequest_alt e endpoint defaults))
             (request_alt_failed e endpoint defaults)
         else on_reject (completeRequest_alt e endpoint defaults) (fail_request e))))"

subsection \<open>\<^verbatim>\<open>requestWith\<close>\<close>

text \<open>
  \<^verbatim>\<open>_endpoint\<close> is a fresh object, so reading and writing its \<^verbatim>\<open>headers\<close> cannot fail;
  writing \<^verbatim>\<open>Authorization\<close> into the headers can, when they are not an object.
\<close>

definition default_headers :: "jsval \<Rightarrow> jsval + jsval" where
  "default_headers ep =
     (case get_prop ep ''headers'' of
        Inl err \<Rightarrow> Inl err
      | Inr h \<Rightarrow> if \<not> truthy h then set_prop ep ''headers'' (JObj []) else Inr ep)"

definition requestWith :: "env \<Rightarrow> jsval \<Rightarrow> jsval \<Rightarrow> jsval \<Rightarrow> jsval act" where
  "requestWith e strategy endpoint defaults =
     reading (\<lambda>a. getToken e a strategy) (\<lambda>token.
       attempt (default_headers (object_assign defaults endpoint)) (\<lambda>ep.
       attempt (get_prop ep ''headers'') (\<lambda>headers.
       attempt (get_prop headers ''Authorization'') (\<lambda>authorization.
         if \<not> truthy authorization \<and> isSet e token \<and> truthy token then
           attempt (set_prop headers ''Authorization'' token) (\<lambda>headers'.
           attempt (set_prop ep ''headers'' headers') (\<lambda>ep'.
             request e ep' JUndefined))
         else request e ep JUndefined))))"

definition requestWith_alt :: "env \<Rightarrow> jsval \<Rightarrow> jsval \<Rightarrow> jsval \<Rightarrow> jsval act" where
  "requestWith_alt e strategy endpoint defaults =
     reading (\<lambda>a. getToken e a strategy) (\<lambda>token.
       attempt (default_headers (object_assign defaults endpoint)) (\<lambda>ep.
         request_alt e ep JUndefined))"

subsection \<open>Session methods\<close>

definition wrapLogin :: "promise \<Rightarrow> jsval act" where
  "wrapLogin p =
     exec (setState ''busy'' (JBool True))
    (exec (\<lambda>a. a\<lparr>last_error := JNull\<rparr>)
    (on_reject
       (on_resolve (await p) (\<lambda>_. exec (setState ''busy'' (JBool False)) (ret JUndefined)))
       (\<lambda>err. exec (setState ''busy'' (JBool False)) (reject err))))"

text \<open>
  \<^verbatim>\<open>this.wrapLogin(this.strategy.login(...arguments))\<close>: the argument is evaluated first,
  so the strategy's \<^verbatim>\<open>login\<close> has run its synchronous part and returned its promise
  when \<^verbatim>\<open>wrapLogin\<close> starts.
\<close>

definition login :: "jsval act" where
  "login =
     with_strategy (\<lambda>s.
       case s_login s of
         None \<Rightarrow> ret JUndefined
       | Some h \<Rightarrow> on_reject (seq (start_hook ''login'' h) wrapLogin) (report ''login''))"



definition reset :: "env \<Rightarrow> jsval act" where
  "reset e =
     with_strategy (\<lambda>s.
       case s_reset s of
         None \<Rightarrow>
           seq (setUser e (JBool False)) (\<lambda>_.
           reading (\<lambda>a. getState a ''strategy'') (\<lambda>name.
           exec (setToken e name (JBool False))
          (reading (\<lambda>a. getState a ''strategy'') (\<lambda>name'.
           exec (setRefreshToken e name' (JBool False))
             (ret JUndefined)))))
       | Some h \<Rightarrow> on_reject (seq (start_hook ''reset'' h) await) (report ''reset''))"

definition reset_alt :: "env \<Rightarrow> jsval act" where
  "reset_alt e =
     with_strategy (\<lambda>s.
       case s_reset s of
         None \<Rightarrow>
           seq (setUser_alt e (JBool False)) (\<lambda>_.
           reading (\<lambda>a. getState a ''strategy'') (\<lambda>name.
           exec (setToken e name (JBool False))
          (reading (\<lambda>a. getState a ''strategy'') (\<lambda>name'.
           exec (setRefreshToken e name' (JBool False))
             (ret JUndefined)))))
       | Some h \<Rightarrow> on_reject (seq (start_hook ''reset'' h) await) (report ''reset''))"

definition user :: "auth \<Rightarrow> jsval" where
  "user a = getState a ''user''"

definition loggedIn :: "auth \<Rightarrow> jsval" where
  "loggedIn a = getState a ''loggedIn''"

definition busy :: "auth \<Rightarrow> jsval" where
  "busy a = getState a ''busy''"

subsection \<open>Scopes\<close>

definition hasScope :: "env \<Rightarrow> jsval \<Rightarrow> jsval act" where
  "hasScope e scope =
     with_strategy (\<lambda>s.
       seq (getTokenScope e (sname s)) (\<lambda>userScopes.
         if \<not> truthy userScopes then ret JUndefined
         else case userScopes of
                JArr xs \<Rightarrow> ret (JBool (scope \<in> set xs))
              | _ \<Rightarrow> ret (JBool (truthy (getProp e userScopes scope)))))"

subsection \<open>Redirects\<close>

definition cookie_get :: "auth \<Rightarrow> string \<Rightarrow> jsval" where
  "cookie_get a k = (case cookies a k of None \<Rightarrow> JUndefined | Some v \<Rightarrow> v)"

definition cookie_remove :: "string \<Rightarrow> auth \<Rightarrow> auth" where
  "cookie_remove k a = a\<lparr>cookies := (cookies a)(k := None), trace := trace a @ [CookieRemove k]\<rparr>"

definition navigate :: "event \<Rightarrow> auth \<Rightarrow> auth" where
  "navigate ev a = a\<lparr>trace := trace a @ [ev]\<rparr>"

text \<open>
  The rewrite of the target for the transition \<^verbatim>\<open>home\<close>: the stored return-to value,
  or else the one-shot cookie, replaces the configured target when it is a relative
  path; the stored value is cleared.
\<close>

definition rewrite_home :: "env \<Rightarrow> jsval \<Rightarrow> auth \<Rightarrow> jsval \<times> auth" where
  "rewrite_home e to a =
     (let redirect0 = getUniversal a ''redirect'';
          cookie = cookie_get a ''oauth-redirect'';
          (redirect1, a1) =
            (if truthy cookie \<and> \<not> truthy redirect0
             then (cookie, cookie_remove ''oauth-redirect'' a)
             else (redirect0, a));
          a2 = setUniversal ''redirect'' JNull a1
      in (if isRelativeURL e redirect1 then redirect1 else to, a2))"

text \<open>The path a target is compared with: with or without the query.\<close>

definition current_path :: "env \<Rightarrow> jsval" where
  "current_path e = (if fullPathRedirect e then route_fullPath e else route_path e)"

text \<open>
  The block \<^verbatim>\<open>// Apply rewrites\<close>: from the configured target \<open>to\<close>, the target that
  \<^verbatim>\<open>redirect\<close> goes on with.
\<close>

definition apply_rewrites :: "env \<Rightarrow> string \<Rightarrow> jsval \<Rightarrow> auth \<Rightarrow> jsval \<times> auth" where
  "apply_rewrites e name to a =
     (if rewriteRedirects e then
        (let a1 = (if name = ''login'' \<and> isRelativeURL e (current_path e)
                      \<and> \<not> isSameURL e to (current_path e)
                   then setUniversal ''redirect'' (current_path e) a else a)
         in if name = ''home'' then rewrite_home e to a1 else (to, a1))
      else (to, a))"

definition redirect :: "env \<Rightarrow> string \<Rightarrow> bool \<Rightarrow> jsval act" where
  "redirect e name noRouter a =
     (if \<not> truthy (redirect_opt e) then ret JUndefined a
      else
        attempt (get_prop (redirect_opt e) name) (\<lambda>to a.
          if \<not> truthy to then ret JUndefined a
          else
            let (to', a') = apply_rewrites e name to a
            in if isSameURL e to' (current_path e) then ret JUndefined a'
               else if process_browser e then
                 (if noRouter then ret JUndefined (navigate (LocationReplace to') a')
                  else ret JUndefined (navigate (RouterRedirect to') a'))
               else ret JUndefined (navigate (RouterRedirect to') a')) a)"

text \<open>The events a run adds to the trace.\<close>

definition new_events :: "auth \<Rightarrow> auth \<Rightarrow> event list" where
  "new_events a a' = drop (length (trace a)) (trace a')"

fun navigations :: "event list \<Rightarrow> jsval list" where
  "navigations [] = []"
| "navigations (RouterRedirect t # evs) = t # navigations evs"
| "navigations (LocationReplace t # evs) = t # navigations evs"
| "navigations (ev # evs) = navigations evs"

section \<open>A configuration to run the engine on\<close>

text \<open>
  One strategy, \<^verbatim>\<open>local\<close>, with a token endpoint and no capability but \<^verbatim>\<open>_setToken\<close>;
  a transport that answers every request with an empty body; a clock that stands still.
\<close>

definition demo_strategy :: strategy where
  "demo_strategy =
     \<lparr>sname = JStr ''local'',
      soptions = JObj [(''access_token_endpoint'', JStr ''http://idp/token''),
                       (''client_id'', JStr ''cid'')],
      s_mounted = None, s_login = None, s_fetchUser = None, s_logout = None, s_reset = None,
      s_setToken = Some (\<lambda>t st. (None, st))\<rparr>"

definition demo_env :: env where
  "demo_env =
     \<lparr>token_prefix = ''_token.'', refresh_prefix = ''_refresh_token.'',
      base_url = JStr ''http://api'',
      redirect_opt = JObj [(''login'', JStr ''/login''), (''logout'', JStr ''/''), (''home'', JStr ''/'')],
      fullPathRedirect = False, rewriteRedirects = True,
      route_path = JStr ''/'', route_fullPath = JStr ''/?x=1'',
      process_browser = True, process_server = False, window_defined = True,
      transport = (\<lambda>hist p. Inr (JObj [(''data'', JObj [])])),
      clock = (\<lambda>n. 5000),
      isSet = (\<lambda>v. \<not> nullish v),
      isSameURL = (\<lambda>x y. x = y),
      isRelativeURL = (\<lambda>v. case v of JStr (c # cs) \<Rightarrow> c = CHR ''/'' | _ \<Rightarrow> False),
      encodeQuery = (\<lambda>v. v),
      getProp = (\<lambda>holder path. JUndefined)\<rparr>"

definition demo_auth :: auth where
  "demo_auth =
     \<lparr>strategies = [''local'' \<mapsto> demo_strategy], errorListeners = [],
      store = \<lparr>sstate = [''strategy'' \<mapsto> JStr ''local''], persisted = Map.empty\<rparr>,
      last_error = JNull, cookies = Map.empty, trace = []\<rparr>"

text \<open>
  A stale session: a user, a token whose expiration (1) is behind the clock in seconds
  and in milliseconds, a refresh token. The transport rejects the first request it gets
  with status 400 and answers every later one with a token response.
\<close>

definition demo_token_data :: "(string \<times> jsval) list" where
  "demo_token_data =
     [(''token_type'', JStr ''Bearer''), (''access_token'', JStr ''fresh''),
      (''refresh_token'', JStr ''r1''), (''expires_in'', JNum 3600), (''scope'', JStr ''read'')]"

definition token_response :: jsval where
  "token_response = JObj [(''data'', JObj demo_token_data)]"

definition status_400 :: jsval where
  "status_400 = JObj [(''response'', JObj [(''status'', JNum 400)])]"

definition recover_env :: env where
  "recover_env = demo_env\<lparr>transport := (\<lambda>hist p. if hist = [] then Inl status_400 else Inr token_response)\<rparr>"

definition expired_auth :: auth where
  "expired_auth =
     demo_auth\<lparr>store := \<lparr>sstate = [''strategy'' \<mapsto> JStr ''local'',
                                    ''user'' \<mapsto> JObj [(''user_id'', JNum 7)],
                                    ''_token.local'' \<mapsto> JStr ''Bearer stale'',
                                    ''_refresh_token.local'' \<mapsto> JStr ''r0'',
                                    ''_token.expiration.local'' \<mapsto> JNum 1,
                                    ''_token.scope.local'' \<mapsto> JStr ''read''],
                          persisted = Map.empty\<rparr>\<rparr>"

text \<open>
  The same session when the transport answers every request with a token response, at
  three clocks: the one above; the last millisecond in which the clock in whole seconds
  fits 32 bits, 2038-01-19T03:14:07.999Z; and the millisecond after it.
\<close>

definition refresh_env :: env where
  "refresh_env = demo_env\<lparr>transport := (\<lambda>hist p. Inr token_response)\<rparr>"

definition eve_env :: env where
  "eve_env = refresh_env\<lparr>clock := (\<lambda>n. 2147483647999)\<rparr>"

definition late_env :: env where
  "late_env = refresh_env\<lparr>clock := (\<lambda>n. 2147483648000)\<rparr>"

definition demo_endpoint :: jsval where
  "demo_endpoint = JObj [(''url'', JStr ''/me'')]"

definition demo_exchange :: jsval where
  "demo_exchange =
     JObj [(''method'', JStr ''post''), (''url'', JStr ''http://idp/token''), (''baseURL'', JBool False),
           (''headers'', JObj [(''Content-Type'', JStr ''application/x-www-form-urlencoded'')]),
           (''data'', JObj [(''client_id'', JStr ''cid''), (''refresh_token'', JStr ''r0''),
                            (''grant_type'', JStr ''refresh_token'')])]"

text \<open>A session with a token and a refresh token, no expiration and no scope.\<close>

definition tokened_auth :: auth where
  "tokened_auth =
     demo_auth\<lparr>store := \<lparr>sstate = [''strategy'' \<mapsto> JStr ''local'',
                                    ''_token.local'' \<mapsto> JStr ''Bearer stale'',
                                    ''_refresh_token.local'' \<mapsto> JStr ''r0''],
                          persisted = Map.empty\<rparr>\<rparr>"

text \<open>The same session with a scope, a string as the token is.\<close>

definition scoped_auth :: auth where
  "scoped_auth =
     demo_auth\<lparr>store := \<lparr>sstate = [''strategy'' \<mapsto> JStr ''local'',
                                    ''_token.local'' \<mapsto> JStr ''Bearer stale'',
                                    ''_refresh_token.local'' \<mapsto> JStr ''r0'',
                                    ''_token.scope.local'' \<mapsto> JStr ''read''],
                          persisted = Map.empty\<rparr>\<rparr>"

text \<open>
  What \<^verbatim>\<open>requestWith\<close> starts from: the merged endpoint, with an empty object for
  its headers when it has none; and a header of an endpoint.
\<close>

definition header :: "jsval \<Rightarrow> string \<Rightarrow> jsval" where
  "header ep k =
     (case get_prop ep ''headers'' of
        Inl err \<Rightarrow> JUndefined
      | Inr h \<Rightarrow> (case get_prop h k of Inl err \<Rightarrow> JUndefined | Inr v \<Rightarrow> v))"

definition prepared_endpoint :: "jsval \<Rightarrow> jsval \<Rightarrow> jsval" where
  "prepared_endpoint endpoint defaults =
     (case default_headers (object_assign defaults endpoint) of Inl err \<Rightarrow> JUndefined | Inr ep \<Rightarrow> ep)"

text \<open>
  Two strategies with a \<^verbatim>\<open>login\<close>. The first notes the value of \<^verbatim>\<open>busy\<close> it sees when
  it is called and when its promise settles, and resolves; the second rejects.
\<close>

definition login_hook :: hook where
  "login_hook st =
     (Returns (Promise (\<lambda>st'. (Inr JUndefined, store_setState ''busy_at_settle'' (store_getState st' ''busy'') st'))),
      store_setState ''busy_at_call'' (store_getState st ''busy'') st)"

definition login_auth :: auth where
  "login_auth = demo_auth\<lparr>strategies := [''local'' \<mapsto> demo_strategy\<lparr>s_login := Some login_hook\<rparr>]\<rparr>"

definition failing_hook :: hook where
  "failing_hook st = (Returns (Promise (\<lambda>st'. (Inl (JStr ''denied''), st'))), st)"

definition failing_auth :: auth where
  "failing_auth = demo_auth\<lparr>strategies := [''local'' \<mapsto> demo_strategy\<lparr>s_login := Some failing_hook\<rparr>]\<rparr>"


text \<open>
  The events that tell one run of the request pipeline from another: the entries into
  \<^verbatim>\<open>refreshToken\<close> and \<^verbatim>\<open>getDBAuth\<close> and the requests sent, by the place that sends them.
\<close>

datatype marker = Entered string | Sent site

fun markers :: "event list \<Rightarrow> marker list" where
  "markers [] = []"
| "markers (Axios s p # evs) = Sent s # markers evs"
| "markers (Enter n # evs) = Entered n # markers evs"
| "markers (ev # evs) = markers evs"

text \<open>A call only ever adds to the trace; \<open>added m a\<close> is what the call \<open>m\<close> adds from \<open>a\<close>.\<close>

definition extends :: "'a act \<Rightarrow> bool" where
  "extends m = (\<forall>a. \<exists>evs. trace (snd (m a)) = trace a @ evs)"

definition added :: "'a act \<Rightarrow> auth \<Rightarrow> event list" where
  "added m a = new_events a (snd (m a))"

text \<open>
  A call follows the marker sequence \<open>F\<close> when it stops somewhere along \<open>F\<close>, and has
  gone through all of it when it resolves.
\<close>

definition follows :: "'a act \<Rightarrow> marker list \<Rightarrow> bool" where
  "follows m F =
     (\<forall>a. (\<exists>k. markers (added m a) = take k F) \<and>
          (\<forall>v. fst (m a) = Resolved v \<longrightarrow> markers (added m a) = F))"

section \<open>Basic facts\<close>

lemmas chain_defs =
  ret_def reject_def throw_def seq_def attempt_def exec_def reading_def async_def
  on_resolve_def on_reject_def

lemmas store_defs =
  getState_def setState_def getUniversal_def setUniversal_def
  store_getState_def store_setState_def store_getUniversal_def store_setUniversal_def

lemma requests_append: "requests (xs @ ys) = requests xs @ requests ys"
  by (induction xs rule: requests.induct) simp_all

lemma navigations_append: "navigations (xs @ ys) = navigations xs @ navigations ys"
  by (induction xs rule: navigations.induct) simp_all

lemma demo_strategy_of: "strategy_of demo_auth = Some demo_strategy"
  by (simp add: strategy_of_def demo_auth_def getState_def store_getState_def)

lemma markers_append: "markers (xs @ ys) = markers xs @ markers ys"
  by (induction xs rule: markers.induct) simp_all

lemma extendsI: "(\<And>a. trace (snd (m a)) = trace a @ f a) \<Longrightarrow> extends m"
  unfolding extends_def by blast

lemma extends_added: "extends m \<Longrightarrow> trace (snd (m a)) = trace a @ added m a"
  unfolding extends_def added_def new_events_def
proof -
  assume "\<forall>a. \<exists>evs. trace (snd (m a)) = trace a @ evs"
  then obtain evs where "trace (snd (m a)) = trace a @ evs" by blast
  then show "trace (snd (m a)) = trace a @ drop (length (trace a)) (trace (snd (m a)))" by simp
qed

lemma added_eqI: "trace (snd (m a)) = trace a @ evs \<Longrightarrow> added m a = evs"
  by (simp add: added_def new_events_def)

lemma settle_snd: "snd (settle x) = snd x"
  by (cases x rule: settle.cases) simp_all

lemma settle_fst_Resolved: "fst (settle x) = Resolved v \<longleftrightarrow> fst x = Resolved v"
  by (cases x rule: settle.cases) simp_all

subsection \<open>What the combinators add to the trace\<close>

lemma extends_ret [simp]: "extends (ret v)" by (rule extendsI [where f = "\<lambda>_. []"]) (simp add: ret_def)
lemma extends_reject [simp]: "extends (reject v)" by (rule extendsI [where f = "\<lambda>_. []"]) (simp add: reject_def)
lemma extends_throw [simp]: "extends (throw v)" by (rule extendsI [where f = "\<lambda>_. []"]) (simp add: throw_def)

lemma added_ret [simp]: "added (ret v) a = []" by (rule added_eqI) (simp add: ret_def)
lemma added_reject [simp]: "added (reject v) a = []" by (rule added_eqI) (simp add: reject_def)
lemma added_throw [simp]: "added (throw v) a = []" by (rule added_eqI) (simp add: throw_def)

lemma seq_trace:
  assumes "extends m" "\<And>x. extends (f x)"
  shows "trace (snd (seq m f a)) =
           trace a @ added m a @ (case fst (m a) of Resolved x \<Rightarrow> added (f x) (snd (m a)) | _ \<Rightarrow> [])"
proof (cases "m a")
  case (Pair r a')
  from extends_added [OF assms(1), of a] Pair have t: "trace a' = trace a @ added m a" by simp
  show ?thesis
  proof (cases r)
    case (Resolved x)
    with Pair t extends_added [OF assms(2), of x a'] show ?thesis by (simp add: seq_def)
  qed (use Pair t in \<open>simp_all add: seq_def\<close>)
qed

lemma extends_seq [simp]: "extends m \<Longrightarrow> (\<And>x. extends (f x)) \<Longrightarrow> extends (seq m f)"
  by (rule extendsI, rule seq_trace [unfolded append_assoc [symmetric], unfolded append_assoc]) 

lemma added_seq:
  "extends m \<Longrightarrow> (\<And>x. extends (f x)) \<Longrightarrow>
   added (seq m f) a = added m a @ (case fst (m a) of Resolved x \<Rightarrow> added (f x) (snd (m a)) | _ \<Rightarrow> [])"
  by (rule added_eqI) (rule seq_trace)

lemma on_resolve_trace:
  assumes "extends m" "\<And>x. extends (f x)"
  shows "trace (snd (on_resolve m f a)) =
           trace a @ added m a @ (case fst (m a) of Resolved x \<Rightarrow> added (f x) (snd (m a)) | _ \<Rightarrow> [])"
proof (cases "m a")
  case (Pair r a')
  from extends_added [OF assms(1), of a] Pair have t: "trace a' = trace a @ added m a" by simp
  show ?thesis
  proof (cases r)
    case (Resolved x)
    with Pair t extends_added [OF assms(2), of x a'] show ?thesis by (simp add: on_resolve_def settle_snd)
  qed (use Pair t in \<open>simp_all add: on_resolve_def\<close>)
qed

lemma extends_on_resolve [simp]: "extends m \<Longrightarrow> (\<And>x. extends (f x)) \<Longrightarrow> extends (on_resolve m f)"
  by (rule extendsI, rule on_resolve_trace)

lemma added_on_resolve:
  "extends m \<Longrightarrow> (\<And>x. extends (f x)) \<Longrightarrow>
   added (on_resolve m f) a = added m a @ (case fst (m a) of Resolved x \<Rightarrow> added (f x) (snd (m a)) | _ \<Rightarrow> [])"
  by (rule added_eqI) (rule on_resolve_trace)

lemma on_reject_trace:
  assumes "extends m" "\<And>x. extends (h x)"
  shows "trace (snd (on_reject m h a)) =
           trace a @ added m a @ (case fst (m a) of Rejected err \<Rightarrow> added (h err) (snd (m a)) | _ \<Rightarrow> [])"
proof (cases "m a")
  case (Pair r a')
  from extends_added [OF assms(1), of a] Pair have t: "trace a' = trace a @ added m a" by simp
  show ?thesis
  proof (cases r)
    case (Rejected err)
    with Pair t extends_added [OF assms(2), of err a'] show ?thesis by (simp add: on_reject_def settle_snd)
  qed (use Pair t in \<open>simp_all add: on_reject_def\<close>)
qed

lemma extends_on_reject [simp]: "extends m \<Longrightarrow> (\<And>x. extends (h x)) \<Longrightarrow> extends (on_reject m h)"
  by (rule extendsI, rule on_reject_trace)

lemma added_on_reject:
  "extends m \<Longrightarrow> (\<And>x. extends (h x)) \<Longrightarrow>
   added (on_reject m h) a = added m a @ (case fst (m a) of Rejected err \<Rightarrow> added (h err) (snd (m a)) | _ \<Rightarrow> [])"
  by (rule added_eqI) (rule on_reject_trace)

lemma extends_attempt [simp]: "(\<And>x. extends (f x)) \<Longrightarrow> extends (attempt r f)"
proof (cases r)
  case (Inl err)
  then show ?thesis by (intro extendsI [where f = "\<lambda>_. []"]) (simp add: attempt_def)
next
  case (Inr x)
  assume "\<And>x. extends (f x)"
  then have "extends (f x)" .
  with Inr show ?thesis by (simp add: extends_def attempt_def)
qed

lemma added_attempt:
  "added (attempt r f) a = (case r of Inl err \<Rightarrow> [] | Inr x \<Rightarrow> added (f x) a)"
  by (cases r) (simp_all add: added_def attempt_def new_events_def)

lemma extends_async [simp]: "extends m \<Longrightarrow> extends (async m)"
  by (simp add: extends_def async_def settle_snd)

lemma added_async [simp]: "added (async m) a = added m a"
  by (simp add: added_def async_def settle_snd)

lemma extends_with_strategy [simp]: "(\<And>s. extends (f s)) \<Longrightarrow> extends (with_strategy f)"
  unfolding extends_def with_strategy_def
  by (auto split: option.splits)

lemma added_with_strategy:
  "added (with_strategy f) a = (case strategy_of a of None \<Rightarrow> [] | Some s \<Rightarrow> added (f s) a)"
  by (simp add: added_def with_strategy_def new_events_def split: option.splits)

lemma exec_trace:
  assumes "extends k" "trace (u a) = trace a @ us"
  shows "trace (snd (exec u k a)) = trace a @ us @ added k (u a)"
  using extends_added [OF assms(1), of "u a"] assms(2) by (simp add: exec_def)


lemma extends_exec [simp]:
  assumes "\<And>a. \<exists>evs. trace (u a) = trace a @ evs" "extends k"
  shows "extends (exec u k)"
  unfolding extends_def exec_def
proof
  fix a
  from assms(1) obtain us where u: "trace (u a) = trace a @ us" by blast
  from extends_added [OF assms(2), of "u a"] u
  show "\<exists>evs. trace (snd (k (u a))) = trace a @ evs" by simp
qed

lemma added_exec:
  assumes "extends k" "trace (u a) = trace a @ us"
  shows "added (exec u k) a = us @ added k (u a)"
  using exec_trace [of k u a us] assms by (intro added_eqI) simp

lemma extends_reading [simp]: "(\<And>x. extends (k x)) \<Longrightarrow> extends (reading g k)"
  unfolding extends_def reading_def by simp

lemma added_reading: "added (reading g k) a = added (k (g a)) a"
  by (simp add: added_def reading_def)

subsection \<open>What the primitive steps add\<close>

lemma setUniversal_trace [simp]: "trace (setUniversal k v a) = trace a @ [SetUniversal k v]"
  by (simp add: setUniversal_def)
lemma setState_trace [simp]: "trace (setState k v a) = trace a @ [SetState k v]"
  by (simp add: setState_def)
lemma setToken_trace [simp]: "trace (setToken e n v a) = trace a @ [SetUniversal (token_prefix e @ js_to_string n) v]"
  by (simp add: setToken_def)
lemma setRefreshToken_trace [simp]: "trace (setRefreshToken e n v a) = trace a @ [SetUniversal (refresh_prefix e @ js_to_string n) v]"
  by (simp add: setRefreshToken_def)
lemma setTokenExpiration_trace [simp]: "trace (setTokenExpiration e n v a) = trace a @ [SetUniversal (token_prefix e @ ''expiration.'' @ js_to_string n) v]"
  by (simp add: setTokenExpiration_def)
lemma setTokenScope_trace [simp]: "trace (setTokenScope e n v a) = trace a @ [SetUniversal (token_prefix e @ ''scope.'' @ js_to_string n) v]"
  by (simp add: setTokenScope_def)
lemma enter_trace [simp]: "trace (enter n a) = trace a @ [Enter n]"
  by (simp add: enter_def)
lemma axios_send_trace [simp]: "trace (axios_send s p a) = trace a @ [Axios s p]"
  by (simp add: axios_send_def)

lemma axios_request_trace: "trace (snd (axios_request e s p a)) = trace a @ [Axios s p]"
  by (simp add: axios_request_def split: sum.splits)
lemma extends_axios_request [simp]: "extends (axios_request e s p)"
  by (rule extendsI, rule axios_request_trace)
lemma added_axios_request [simp]: "added (axios_request e s p) a = [Axios s p]"
  by (rule added_eqI, rule axios_request_trace)

lemma loading_trace: "trace (snd (loading e ev a)) = trace a @ (if window_defined e then [ev] else [])"
  by (simp add: loading_def)
lemma extends_loading [simp]: "extends (loading e ev)"
  by (rule extendsI, rule loading_trace)
lemma added_loading: "added (loading e ev) a = (if window_defined e then [ev] else [])"
  by (rule added_eqI, rule loading_trace)

lemma loading_alt_trace:
  "trace (snd (loading_alt e ev a)) = trace a @ (if \<not> process_server e \<and> window_defined e then [ev] else [])"
  by (simp add: loading_alt_def loading_def)
lemma extends_loading_alt [simp]: "extends (loading_alt e ev)"
  by (rule extendsI, rule loading_alt_trace)
lemma added_loading_alt:
  "added (loading_alt e ev) a = (if \<not> process_server e \<and> window_defined e then [ev] else [])"
  by (rule added_eqI, rule loading_alt_trace)

lemma callOnError_trace: "trace (snd (callOnError err p a)) = trace a @ [CallOnError err p]"
  by (auto simp: callOnError_def Let_def split: prod.splits option.splits)
lemma extends_callOnError [simp]: "extends (callOnError err p)"
  by (rule extendsI, rule callOnError_trace)
lemma added_callOnError [simp]: "added (callOnError err p) a = [CallOnError err p]"
  by (rule added_eqI, rule callOnError_trace)

lemma extends_report [simp]: "extends (report m err)"
  by (simp add: report_def)
lemma added_report [simp]: "added (report m err) a = [CallOnError err (method_payload m)]"
  by (simp add: report_def added_seq split: outcome.splits)

lemma extends_fail_request [simp]: "extends (fail_request e err)"
  by (simp add: fail_request_def)

lemma loading_alt_fst:
  "fst (loading_alt e ev a) = (if \<not> process_server e \<and> \<not> window_defined e then Thrown ReferenceError else Resolved JUndefined)"
  by (simp add: loading_alt_def loading_def)

lemma loading_fst:
  "fst (loading e ev a) = (if \<not> window_defined e then Thrown ReferenceError else Resolved JUndefined)"
  by (simp add: loading_def)

lemma added_fail_request:
  "added (fail_request e err) a =
     (if process_server e then [CallOnError err (method_payload ''completeRequest'')]
      else if window_defined e then [LoadingFail, CallOnError err (method_payload ''completeRequest'')]
      else [])"
  by (simp add: fail_request_def added_seq added_loading_alt loading_alt_fst)

lemma fail_request_not_resolved: "fst (fail_request e err a) \<noteq> Resolved v"
  by (auto simp: fail_request_def report_def seq_def reject_def split: prod.splits outcome.splits)

lemma extends_getTokenScope [simp]: "extends (getTokenScope e n)"
  by (rule extendsI [where f = "\<lambda>_. []"]) (simp add: getTokenScope_def reading_def attempt_def ret_def split: sum.splits)
lemma added_getTokenScope [simp]: "added (getTokenScope e n) a = []"
  by (rule added_eqI) (simp add: getTokenScope_def reading_def attempt_def ret_def split: sum.splits)
lemma getTokenScope_snd [simp]: "snd (getTokenScope e n a) = a"
  by (simp add: getTokenScope_def reading_def attempt_def ret_def split: sum.splits)

lemma call_setToken_trace:
  "trace (snd (call_setToken t a)) =
     trace a @ (case strategy_of a of None \<Rightarrow> [] | Some s \<Rightarrow> (case s_setToken s of None \<Rightarrow> [] | Some f \<Rightarrow> [Invoke ''_setToken'']))"
  by (simp add: call_setToken_def with_strategy_def Let_def split: option.splits prod.splits)
lemma extends_call_setToken [simp]: "extends (call_setToken t)"
  by (rule extendsI, rule call_setToken_trace)
lemma markers_call_setToken [simp]: "markers (added (call_setToken t) a) = []"
  by (simp add: added_eqI [OF call_setToken_trace] split: option.splits)

lemma extends_extract_result [simp]: "extends (extract_result e ep r)"
  by (simp add: extract_result_def)
lemma added_extract_result [simp]: "added (extract_result e ep r) a = []"
  by (simp add: extract_result_def added_attempt split: sum.splits)

lemma extends_completeRequest_alt [simp]: "extends (completeRequest_alt e ep d)"
  by (simp add: completeRequest_alt_def Let_def)
lemma markers_completeRequest_alt [simp]: "markers (added (completeRequest_alt e ep d) a) = [Sent Dispatch]"
  by (simp add: completeRequest_alt_def Let_def added_on_resolve added_seq added_loading_alt markers_append
        split: outcome.splits)

lemma extends_completeRequest [simp]: "extends (completeRequest e ep d)"
  by (simp add: completeRequest_def Let_def)
lemma markers_completeRequest [simp]: "markers (added (completeRequest e ep d) a) = [Sent Dispatch]"
  by (simp add: completeRequest_def Let_def added_on_resolve added_on_reject added_seq added_loading markers_append
        split: outcome.splits)


subsection \<open>Marker sequences\<close>

lemma followsI:
  assumes "\<And>a. \<exists>k. markers (added m a) = take k F"
      and "\<And>a v. fst (m a) = Resolved v \<Longrightarrow> markers (added m a) = F"
  shows "follows m F"
  using assms unfolding follows_def by blast

lemma follows_prefix: "follows m F \<Longrightarrow> \<exists>k. markers (added m a) = take k F"
  unfolding follows_def by blast

lemma follows_resolved: "follows m F \<Longrightarrow> fst (m a) = Resolved v \<Longrightarrow> markers (added m a) = F"
  unfolding follows_def by blast

lemma take_append_ex: "\<exists>k. F @ take j G = take k (F @ G)"
  by (rule exI [where x = "length F + j"]) simp

lemma take_weaken_ex: "\<exists>k'. take k F = take k' (F @ G)"
  by (rule exI [where x = "min k (length F)"]) (simp add: min_def)

lemma follows_ret [simp]: "follows (ret v) []"
  by (rule followsI) simp_all

lemma follows_reject [simp]: "follows (reject err) F"
  by (rule followsI) (simp_all add: reject_def exI [where x = 0])

lemma follows_axios_request [simp]: "follows (axios_request e s p) [Sent s]"
  by (rule followsI) (simp_all add: exI [where x = 1])

lemma follows_call_setToken [simp]: "follows (call_setToken t) []"
  by (rule followsI) simp_all

lemma follows_completeRequest_alt [simp]: "follows (completeRequest_alt e ep d) [Sent Dispatch]"
  by (rule followsI) (simp_all add: exI [where x = 1])

lemma follows_getTokenScope [simp]: "follows (getTokenScope e n) []"
  by (rule followsI) simp_all

text \<open>Two steps in a row: the first must resolve for the second to run.\<close>
lemma follows_chain:
  assumes em: "extends m" and ef: "\<And>x. extends (f x)"
      and fm: "follows m F" and ff: "\<And>x. follows (f x) G"
      and tr: "\<And>a. trace (snd (c a)) = trace a @ added m a @ (case fst (m a) of Resolved x \<Rightarrow> added (f x) (snd (m a)) | _ \<Rightarrow> [])"
      and res: "\<And>a v. fst (c a) = Resolved v \<Longrightarrow> \<exists>x w. fst (m a) = Resolved x \<and> fst (f x (snd (m a))) = Resolved w"
  shows "follows c (F @ G)"
proof (rule followsI)
  fix a
  have ad: "added c a = added m a @ (case fst (m a) of Resolved x \<Rightarrow> added (f x) (snd (m a)) | _ \<Rightarrow> [])"
    by (rule added_eqI) (rule tr)
  show "\<exists>k. markers (added c a) = take k (F @ G)"
  proof (cases "fst (m a)")
    case (Resolved x)
    from follows_resolved [OF fm Resolved] have 1: "markers (added m a) = F" .
    from follows_prefix [OF ff, of x "snd (m a)"] obtain j where 2: "markers (added (f x) (snd (m a))) = take j G" by blast
    from Resolved 1 2 ad show ?thesis by (simp add: markers_append take_append_ex del: take_append)
  next
    case (Rejected err)
    from follows_prefix [OF fm, of a] obtain k where "markers (added m a) = take k F" by blast
    with Rejected ad show ?thesis by (simp add: take_weaken_ex del: take_append)
  next
    case (Thrown err)
    from follows_prefix [OF fm, of a] obtain k where "markers (added m a) = take k F" by blast
    with Thrown ad show ?thesis by (simp add: take_weaken_ex del: take_append)
  qed
  fix v assume "fst (c a) = Resolved v"
  from res [OF this] obtain x w where r1: "fst (m a) = Resolved x" and r2: "fst (f x (snd (m a))) = Resolved w" by blast
  from follows_resolved [OF fm r1] follows_resolved [OF ff r2] r1 ad
  show "markers (added c a) = F @ G" by (simp add: markers_append)
qed

lemma on_resolve_resolved:
  "fst (on_resolve m f a) = Resolved v \<Longrightarrow> \<exists>x w. fst (m a) = Resolved x \<and> fst (f x (snd (m a))) = Resolved w"
  by (cases "m a") (auto simp: on_resolve_def settle_fst_Resolved split: outcome.splits)

lemma seq_resolved:
  "fst (seq m f a) = Resolved v \<Longrightarrow> \<exists>x w. fst (m a) = Resolved x \<and> fst (f x (snd (m a))) = Resolved w"
  by (cases "m a") (auto simp: seq_def split: outcome.splits)

lemma follows_on_resolve:
  "extends m \<Longrightarrow> (\<And>x. extends (f x)) \<Longrightarrow> follows m F \<Longrightarrow> (\<And>x. follows (f x) G) \<Longrightarrow> H = F @ G
   \<Longrightarrow> follows (on_resolve m f) H"
  using follows_chain [of m f F G "on_resolve m f"] on_resolve_trace [of m f] on_resolve_resolved [of m f]
  by blast

lemma follows_seq:
  "extends m \<Longrightarrow> (\<And>x. extends (f x)) \<Longrightarrow> follows m F \<Longrightarrow> (\<And>x. follows (f x) G) \<Longrightarrow> H = F @ G
   \<Longrightarrow> follows (seq m f) H"
  using follows_chain [of m f F G "seq m f"] seq_trace [of m f] seq_resolved [of m f]
  by blast

lemma follows_attempt: "(\<And>x. follows (f x) F) \<Longrightarrow> follows (attempt r f) F"
proof (cases r)
  case (Inl err)
  then show ?thesis by (intro followsI) (simp_all add: added_attempt attempt_def exI [where x = 0])
next
  case (Inr x)
  assume "\<And>x. follows (f x) F"
  then have "follows (f x) F" .
  with Inr show ?thesis by (simp add: follows_def added_attempt attempt_def)
qed

lemma follows_with_strategy: "(\<And>s. follows (f s) F) \<Longrightarrow> follows (with_strategy f) F"
  unfolding follows_def
  by (auto simp: added_with_strategy with_strategy_def exI [where x = 0] split: option.splits)

lemma follows_exec:
  assumes u: "\<And>a. trace (u a) = trace a @ us" and ek: "extends c" and fk: "follows c F"
      and H: "H = markers us @ F"
  shows "follows (exec u c) H"
proof (rule followsI)
  fix a
  have ad: "added (exec u c) a = us @ added c (u a)"
    by (rule added_exec [OF ek u])
  from follows_prefix [OF fk, of "u a"] obtain j where "markers (added c (u a)) = take j F" by blast
  with ad H show "\<exists>j. markers (added (exec u c) a) = take j H"
    by (simp add: markers_append take_append_ex del: take_append)
  fix v assume "fst (exec u c a) = Resolved v"
  then have "fst (c (u a)) = Resolved v" by (simp add: exec_def)
  from follows_resolved [OF fk this] ad H
  show "markers (added (exec u c) a) = H" by (simp add: markers_append)
qed

lemma follows_reading: "(\<And>x. follows (c x) F) \<Longrightarrow> follows (reading g c) F"
  unfolding follows_def by (simp add: added_reading) (simp add: reading_def)

lemma follows_if: "follows m F \<Longrightarrow> follows m' F \<Longrightarrow> follows (if c then m else m') F"
  by simp

lemma follows_case_prod4:
  "(\<And>x y z w. follows (f x y z w) F) \<Longrightarrow> follows (case p of (x, y, z, w) \<Rightarrow> f x y z w) F"
  by (cases p) auto

lemma extends_case_prod4 [simp]:
  "(\<And>x y z w. extends (f x y z w)) \<Longrightarrow> extends (case p of (x, y, z, w) \<Rightarrow> f x y z w)"
  by (cases p) auto

subsection \<open>The profile synchronisation\<close>

lemma extends_user_data [simp]: "extends (user_data e u)"
  by (simp add: user_data_def)

lemma added_user_data [simp]: "added (user_data e u) a = []"
  by (simp add: user_data_def added_with_strategy added_reading added_attempt added_seq
        split: option.splits sum.splits outcome.splits)

lemma follows_user_data [simp]: "follows (user_data e u) []"
  by (rule followsI) simp_all

lemma extends_updateUser [simp]: "extends (updateUser e u)"
  by (simp add: updateUser_def)

text \<open>Rules for the steps that occur in the pipeline, one for each shape of step.\<close>

lemma follows_store:
  "extends c \<Longrightarrow> follows c F \<Longrightarrow> follows (exec (setUniversal k v) c) F"
  by (rule follows_exec [where us = "[SetUniversal k v]" and F = F]) simp_all

lemma follows_enter:
  "extends c \<Longrightarrow> follows c F \<Longrightarrow> follows (exec (enter n) c) (Entered n # F)"
  by (rule follows_exec [where us = "[Enter n]" and F = F]) simp_all

lemma follows_send:
  "extends c \<Longrightarrow> follows c F \<Longrightarrow> follows (exec (axios_send s p) c) (Sent s # F)"
  by (rule follows_exec [where us = "[Axios s p]" and F = F]) simp_all

lemma follows_after_user_data:
  "(\<And>x. extends (f x)) \<Longrightarrow> (\<And>x. follows (f x) G) \<Longrightarrow> follows (seq (user_data e u) f) G"
  by (rule follows_seq [where F = "[]" and G = G]) simp_all

lemma follows_after_call_setToken:
  "(\<And>x. extends (f x)) \<Longrightarrow> (\<And>x. follows (f x) G) \<Longrightarrow> follows (seq (call_setToken t) f) G"
  by (rule follows_seq [where F = "[]" and G = G]) simp_all

lemma follows_after_request:
  "(\<And>x. extends (f x)) \<Longrightarrow> (\<And>x. follows (f x) G)
   \<Longrightarrow> follows (on_resolve (axios_request e s p) f) (Sent s # G)"
  by (rule follows_on_resolve [where F = "[Sent s]" and G = G]) simp_all

lemma follows_updateUser [simp]: "follows (updateUser e u) [Sent ProfileSync]"
  unfolding updateUser_def
  by (intro follows_after_user_data follows_send) simp_all

lemma follows_updateUser_last [simp]:
  "follows (seq (updateUser e u) (\<lambda>_. ret v)) [Sent ProfileSync]"
  by (rule follows_seq [where F = "[Sent ProfileSync]" and G = "[]"]) simp_all

subsection \<open>The refresh protocol and the recovery\<close>

lemma extends_refreshToken_done [simp]: "extends (refreshToken_done e response)"
  by (simp add: refreshToken_done_def)

lemma follows_refreshToken_done [simp]: "follows (refreshToken_done e response) [Sent ProfileSync]"
  unfolding refreshToken_done_def setToken_def setRefreshToken_def setTokenExpiration_def
    setTokenScope_def
  by (intro follows_attempt follows_case_prod4 follows_reading follows_with_strategy
        follows_store follows_after_call_setToken)
     simp_all

lemma extends_refreshToken [simp]: "extends (refreshToken e)"
  by (simp add: refreshToken_def)

lemma follows_refreshToken [simp]:
  "follows (refreshToken e) [Entered ''refreshToken'', Sent TokenExchange, Sent ProfileSync]"
  unfolding refreshToken_def
  by (intro follows_enter follows_with_strategy follows_reading follows_attempt follows_after_request)
     simp_all

lemma follows_refreshToken_last [simp]:
  "follows (on_resolve (refreshToken e) (\<lambda>_. ret v))
     [Entered ''refreshToken'', Sent TokenExchange, Sent ProfileSync]"
  by (rule follows_on_resolve
        [where F = "[Entered ''refreshToken'', Sent TokenExchange, Sent ProfileSync]" and G = "[]"])
     simp_all

lemma extends_getDBAuth_done [simp]: "extends (getDBAuth_done e r)"
  by (simp add: getDBAuth_done_def)

lemma follows_getDBAuth_done [simp]:
  "follows (getDBAuth_done e r) [Entered ''refreshToken'', Sent TokenExchange, Sent ProfileSync]"
  unfolding getDBAuth_done_def setToken_def setRefreshToken_def
  by (intro follows_with_strategy follows_attempt follows_store follows_after_call_setToken)
     simp_all

lemma extends_getDBAuth [simp]: "extends (getDBAuth e)"
  by (simp add: getDBAuth_def)

lemma follows_getDBAuth [simp]:
  "follows (getDBAuth e)
     [Entered ''getDBAuth'', Sent CredentialFetch, Entered ''refreshToken'', Sent TokenExchange, Sent ProfileSync]"
  unfolding getDBAuth_def
  by (intro follows_enter follows_reading follows_if follows_attempt follows_after_request)
     simp_all

lemma getDBAuth_enters: "\<exists>evs. added (getDBAuth e) a = Enter ''getDBAuth'' # evs"
proof -
  have "extends (reading (\<lambda>a. getState a ''user'') (\<lambda>user.
       if \<not> truthy user then reject JUndefined
       else
         attempt (get_prop user ''user_id'') (\<lambda>user_id.
           on_resolve (axios_request e CredentialFetch (credential_request e user_id))
             (getDBAuth_done e))))" by simp
  then show ?thesis
    unfolding getDBAuth_def
    by (subst added_exec [where us = "[Enter ''getDBAuth'']"]) simp_all
qed

lemma extends_recovery [simp]: "extends (recovery e ep d)"
  by (simp add: recovery_def)

lemma follows_refresh_and_dispatch:
  "follows (on_resolve (refreshToken e) (\<lambda>_. completeRequest_alt e ep d))
     [Entered ''refreshToken'', Sent TokenExchange, Sent ProfileSync, Sent Dispatch]"
  by (rule follows_on_resolve
        [where F = "[Entered ''refreshToken'', Sent TokenExchange, Sent ProfileSync]"
           and G = "[Sent Dispatch]"])
     simp_all

lemma follows_recovery:
  "follows (recovery e ep d)
     [Entered ''getDBAuth'', Sent CredentialFetch, Entered ''refreshToken'', Sent TokenExchange, Sent ProfileSync,
      Entered ''refreshToken'', Sent TokenExchange, Sent ProfileSync, Sent Dispatch]"
  unfolding recovery_def
  by (rule follows_on_resolve
        [where F = "[Entered ''getDBAuth'', Sent CredentialFetch, Entered ''refreshToken'',
                     Sent TokenExchange, Sent ProfileSync]"
           and G = "[Entered ''refreshToken'', Sent TokenExchange, Sent ProfileSync, Sent Dispatch]"])
     (simp_all add: follows_refresh_and_dispatch)

section \<open>Scopes\<close>

text \<open>
  C10. \<^verbatim>\<open>getTokenScope\<close> applies \<^verbatim>\<open>split(' ')\<close> to whatever is stored. When nothing is
  stored for a strategy (the read gives \<^verbatim>\<open>undefined\<close> or \<^verbatim>\<open>null\<close>), \<^verbatim>\<open>getTokenScope\<close>
  throws a TypeError, and so does every \<^verbatim>\<open>hasScope\<close> call while that strategy is the
  active one; no absence marker is returned. When a string is stored, the result is the
  array of its space-separated pieces.
\<close>

theorem getTokenScope_splits:
  "(nullish (getUniversal a (token_prefix e @ ''scope.'' @ js_to_string n)) \<longrightarrow>
      getTokenScope e n a = (Thrown TypeError, a) \<and>
      (\<forall>s scope. strategy_of a = Some s \<and> sname s = n \<longrightarrow>
         hasScope e scope a = (Thrown TypeError, a)))
   \<and> (\<forall>str. getUniversal a (token_prefix e @ ''scope.'' @ js_to_string n) = JStr str \<longrightarrow>
         getTokenScope e n a = (Resolved (JArr (map JStr (js_split '' '' str))), a))"
  by (cases "getUniversal a (token_prefix e @ ''scope.'' @ js_to_string n)")
     (auto simp: getTokenScope_def hasScope_def with_strategy_def attempt_def seq_def ret_def reading_def)

theorem getTokenScope_splits_witness:
  "nullish (getUniversal demo_auth (token_prefix demo_env @ ''scope.'' @ js_to_string (JStr ''local'')))
   \<and> hasScope demo_env (JStr ''read'') demo_auth = (Thrown TypeError, demo_auth)
   \<and> getUniversal (setTokenScope demo_env (JStr ''local'') (JStr ''read write'') demo_auth)
        (token_prefix demo_env @ ''scope.'' @ js_to_string (JStr ''local'')) = JStr ''read write''
   \<and> fst (getTokenScope demo_env (JStr ''local'')
            (setTokenScope demo_env (JStr ''local'') (JStr ''read write'') demo_auth))
       = Resolved (JArr [JStr ''read'', JStr ''write''])"
proof -
  let ?a = "setTokenScope demo_env (JStr ''local'') (JStr ''read write'') demo_auth"
  have h1: "nullish (getUniversal demo_auth (token_prefix demo_env @ ''scope.'' @ js_to_string (JStr ''local'')))"
    by (simp add: demo_auth_def demo_env_def store_defs)
  have h2: "strategy_of demo_auth = Some demo_strategy \<and> sname demo_strategy = JStr ''local''"
    by (simp add: demo_strategy_of) (simp add: demo_strategy_def)
  have h3: "getUniversal ?a (token_prefix demo_env @ ''scope.'' @ js_to_string (JStr ''local'')) = JStr ''read write''"
    by (simp add: demo_auth_def demo_env_def store_defs setTokenScope_def)
  have h4: "js_split '' '' ''read write'' = [''read'', ''write'']"
    by (simp add: js_split_def)
  from getTokenScope_splits [of demo_auth demo_env "JStr ''local''"] h1 h2
  have "hasScope demo_env (JStr ''read'') demo_auth = (Thrown TypeError, demo_auth)"
    by simp
  moreover from getTokenScope_splits [of ?a demo_env "JStr ''local''"] h3 h4
  have "fst (getTokenScope demo_env (JStr ''local'') ?a) = Resolved (JArr [JStr ''read'', JStr ''write''])"
    by simp
  ultimately show ?thesis using h1 h3 by simp
qed

text \<open>
  C4. With the strategy \<^verbatim>\<open>local\<close> active, \<^verbatim>\<open>hasScope("read")\<close> is \<^verbatim>\<open>true\<close> when the
  stored scope is \<^verbatim>\<open>"read write"\<close> and \<^verbatim>\<open>false\<close> when it is \<^verbatim>\<open>"write"\<close>. When no
  scope is stored the call does not return \<^verbatim>\<open>undefined\<close>: it throws a TypeError, out
  of \<^verbatim>\<open>getTokenScope\<close>, before the test \<^verbatim>\<open>if (!userScopes)\<close> of \<^verbatim>\<open>hasScope\<close> is reached.
\<close>

theorem hasScope_read_cases:
  "fst (hasScope demo_env (JStr ''read'')
          (setTokenScope demo_env (JStr ''local'') (JStr ''read write'') demo_auth)) = Resolved (JBool True)
   \<and> fst (hasScope demo_env (JStr ''read'')
          (setTokenScope demo_env (JStr ''local'') (JStr ''write'') demo_auth)) = Resolved (JBool False)
   \<and> fst (hasScope demo_env (JStr ''read'') demo_auth) = Thrown TypeError"
  by (simp add: hasScope_def with_strategy_def strategy_of_def getTokenScope_def setTokenScope_def
        demo_auth_def demo_env_def demo_strategy_def store_defs chain_defs js_split_def)

section \<open>Secondary credential recovery\<close>

text \<open>
  C8. When the cached user is absent (falsy), \<^verbatim>\<open>getDBAuth\<close> returns a rejected promise
  at once: nothing is handed to the transport, and nothing but the entry into the
  method is added to the trace.
\<close>

theorem getDBAuth_without_user:
  assumes "\<not> truthy (user a)"
  shows "getDBAuth e a = (Rejected JUndefined, a\<lparr>trace := trace a @ [Enter ''getDBAuth'']\<rparr>)
         \<and> requests (trace (snd (getDBAuth e a))) = requests (trace a)"
  using assms
  by (simp add: getDBAuth_def user_def exec_def reading_def enter_def reject_def getState_def requests_append)

theorem getDBAuth_without_user_witness:
  "\<not> truthy (user demo_auth)
   \<and> fst (getDBAuth demo_env demo_auth) = Rejected JUndefined
   \<and> requests (trace (snd (getDBAuth demo_env demo_auth))) = []"
proof -
  have h: "\<not> truthy (user demo_auth)"
    by (simp add: user_def demo_auth_def store_defs)
  have t: "requests (trace demo_auth) = []"
    by (simp add: demo_auth_def)
  from getDBAuth_without_user [OF h, of demo_env] h t show ?thesis
    by (simp add: requests_append)
qed

section \<open>Switching the strategy\<close>



lemma report_trace: "trace (snd (report m err a)) = trace a @ [CallOnError err (method_payload m)]"
  using callOnError_trace [of err "method_payload m" a]
  by (auto simp: report_def seq_def reject_def split: prod.splits outcome.splits)










section \<open>Redirects\<close>

lemma rewrite_home_navigations:
  "navigations (trace (snd (rewrite_home e to a))) = navigations (trace a)"
  by (simp add: rewrite_home_def Let_def setUniversal_def cookie_remove_def navigations_append
        split: prod.splits)

lemma apply_rewrites_navigations:
  "navigations (trace (snd (apply_rewrites e name to a))) = navigations (trace a)"
  by (simp add: apply_rewrites_def Let_def rewrite_home_navigations setUniversal_def navigations_append)

lemma new_events_navigations:
  assumes "\<exists>evs. trace a' = trace a @ evs"
  shows "navigations (trace a') = navigations (trace a) @ navigations (new_events a a')"
  using assms by (auto simp: new_events_def navigations_append)

lemma apply_rewrites_extends: "\<exists>evs. trace (snd (apply_rewrites e name to a)) = trace a @ evs"
  by (simp add: apply_rewrites_def rewrite_home_def Let_def setUniversal_def cookie_remove_def
        split: prod.splits)

text \<open>
  C9. Whatever the redirect map, the rewrite switch, the full-path switch and the
  stored return-to value are: when the target \<^verbatim>\<open>redirect(name)\<close> resolves is the same
  URL as the current path (as \<^verbatim>\<open>isSameURL\<close> decides; in particular when the two are
  equal and \<^verbatim>\<open>isSameURL\<close> is reflexive), the call adds no navigation to the trace,
  neither a router redirect nor a replacement of the location.
\<close>

theorem redirect_same_target:
  assumes "get_prop (redirect_opt e) name = Inr to"
  shows "(isSameURL e (fst (apply_rewrites e name to a)) (current_path e) \<longrightarrow>
            navigations (new_events a (snd (redirect e name noRouter a))) = [])
       \<and> ((\<forall>u. isSameURL e u u) \<and> fst (apply_rewrites e name to a) = current_path e \<longrightarrow>
            navigations (new_events a (snd (redirect e name noRouter a))) = [])"
proof -
  obtain to' a' where ar: "apply_rewrites e name to a = (to', a')" by (cases "apply_rewrites e name to a")
  from apply_rewrites_extends [of e name to a] ar obtain evs where ev: "trace a' = trace a @ evs" by auto
  from apply_rewrites_navigations [of e name to a] ar ev have nav: "navigations evs = []"
    by (simp add: navigations_append)
  have "isSameURL e to' (current_path e) \<Longrightarrow> navigations (new_events a (snd (redirect e name noRouter a))) = []"
    using assms ar ev nav
    by (simp add: redirect_def attempt_def ret_def new_events_def)
  with ar show ?thesis by auto
qed

theorem redirect_same_target_witness:
  "get_prop (redirect_opt demo_env) ''home'' = Inr (JStr ''/'')
   \<and> isSameURL demo_env (fst (apply_rewrites demo_env ''home'' (JStr ''/'') demo_auth)) (current_path demo_env)
   \<and> (\<forall>u. isSameURL demo_env u u)
   \<and> fst (apply_rewrites demo_env ''home'' (JStr ''/'') demo_auth) = current_path demo_env
   \<and> navigations (new_events demo_auth (snd (redirect demo_env ''home'' False demo_auth))) = []"
proof -
  have h1: "get_prop (redirect_opt demo_env) ''home'' = Inr (JStr ''/'')"
    by (simp add: demo_env_def)
  have h2: "fst (apply_rewrites demo_env ''home'' (JStr ''/'') demo_auth) = current_path demo_env"
    by (simp add: apply_rewrites_def rewrite_home_def current_path_def cookie_get_def
          demo_env_def demo_auth_def store_defs)
  have h3: "\<forall>u. isSameURL demo_env u u"
    by (simp add: demo_env_def)
  from redirect_same_target [OF h1, of demo_auth False] h1 h2 h3 show ?thesis by simp
qed

text \<open>Otherwise the call navigates once, to the resolved target.\<close>

lemma redirect_otherwise:
  assumes "get_prop (redirect_opt e) name = Inr to" "truthy (redirect_opt e)" "truthy to"
    "\<not> isSameURL e (fst (apply_rewrites e name to a)) (current_path e)"
  shows "navigations (new_events a (snd (redirect e name noRouter a))) = [fst (apply_rewrites e name to a)]"
proof -
  obtain to' a' where ar: "apply_rewrites e name to a = (to', a')" by (cases "apply_rewrites e name to a")
  from apply_rewrites_extends [of e name to a] ar obtain evs where ev: "trace a' = trace a @ evs" by auto
  from apply_rewrites_navigations [of e name to a] ar ev have nav: "navigations evs = []"
    by (simp add: navigations_append)
  show ?thesis using assms ar ev nav
    by (simp add: redirect_def attempt_def ret_def new_events_def navigate_def navigations_append)
qed

section \<open>The request pipeline\<close>

lemma strategy_of_enter [simp]: "strategy_of (enter n a) = strategy_of a"
  by (simp add: strategy_of_def enter_def getState_def)

lemma getRefreshToken_enter [simp]: "getRefreshToken e (enter n a) k = getRefreshToken e a k"
  by (simp add: getRefreshToken_def enter_def getUniversal_def)

lemma refreshToken_rejected:
  assumes "strategy_of a = Some s"
      and "exchange_payload_alt e s (getRefreshToken e a (sname s)) = Inr p"
      and "transport e (requests (trace a)) p = Inl err"
  shows "refreshToken e a = (Rejected err, a\<lparr>trace := trace a @ [Enter ''refreshToken'', Axios TokenExchange p]\<rparr>)"
  using assms
  by (simp add: refreshToken_def exec_def with_strategy_def reading_def attempt_def on_resolve_def
        axios_request_def requests_append)
     (simp add: enter_def)

subsection \<open>Reports\<close>

lemma run_listeners_thrown:
  "fst (run_listeners ls err p st) = Some ex \<Longrightarrow> \<exists>l\<in>set ls. \<exists>st'. fst (l err p st') = Some ex"
proof (induction ls arbitrary: st)
  case Nil
  then show ?case by simp
next
  case (Cons l ls)
  show ?case
  proof (cases "l err p st")
    case (Pair r st')
    show ?thesis
    proof (cases r)
      case None
      with Pair Cons.prems have "fst (run_listeners ls err p st') = Some ex" by simp
      from Cons.IH [OF this] show ?thesis by auto
    next
      case (Some ex')
      with Pair Cons.prems have "fst (l err p st) = Some ex" by simp
      then show ?thesis by auto
    qed
  qed
qed

lemma callOnError_outcome:
  "fst (callOnError err p a) = Resolved JUndefined
   \<or> (\<exists>ex. fst (callOnError err p a) = Thrown ex \<and> (\<exists>l\<in>set (errorListeners a). \<exists>st. fst (l err p st) = Some ex))"
proof (cases "run_listeners (errorListeners a) err p (store a)")
  case (Pair r st)
  show ?thesis
  proof (cases r)
    case None
    with Pair show ?thesis by (simp add: callOnError_def)
  next
    case (Some ex)
    with Pair have "fst (run_listeners (errorListeners a) err p (store a)) = Some ex" by simp
    from run_listeners_thrown [OF this] Pair Some show ?thesis by (simp add: callOnError_def)
  qed
qed

lemma callOnError_frame:
  "last_error (snd (callOnError err p a)) = err \<and> errorListeners (snd (callOnError err p a)) = errorListeners a"
  by (simp add: callOnError_def Let_def split: prod.splits option.splits)

text \<open>What a report leaves behind.\<close>
lemma report_outcome:
  "\<exists>r. fst (settle (report m err a)) = Rejected r
       \<and> last (added (report m err) a) = CallOnError err (method_payload m)
       \<and> last_error (snd (report m err a)) = err
       \<and> (r = err \<or> (\<exists>l\<in>set (errorListeners (snd (report m err a))). \<exists>st. fst (l err (method_payload m) st) = Some r))"
proof (cases "callOnError err (method_payload m) a")
  case (Pair r a')
  from callOnError_frame [of err "method_payload m" a] Pair
  have fr: "last_error a' = err" "errorListeners a' = errorListeners a" by simp_all
  from callOnError_outcome [of err "method_payload m" a] Pair
  consider "r = Resolved JUndefined"
    | ex where "r = Thrown ex" "\<exists>l\<in>set (errorListeners a). \<exists>st. fst (l err (method_payload m) st) = Some ex"
    by auto
  then have "\<exists>r. fst (settle (report m err a)) = Rejected r
       \<and> last_error (snd (report m err a)) = err
       \<and> (r = err \<or> (\<exists>l\<in>set (errorListeners (snd (report m err a))). \<exists>st. fst (l err (method_payload m) st) = Some r))"
  proof cases
    case 1
    with Pair fr show ?thesis by (simp add: report_def seq_def reject_def)
  next
    case 2
    with Pair fr show ?thesis by (simp add: report_def seq_def)
  qed
  then show ?thesis by simp
qed

lemma fail_request_outcome:
  assumes "process_server e \<or> window_defined e"
  shows "\<exists>r. fst (settle (fail_request e err a)) = Rejected r
       \<and> last (added (fail_request e err) a) = CallOnError err (method_payload ''completeRequest'')
       \<and> last_error (snd (fail_request e err a)) = err
       \<and> (r = err \<or> (\<exists>l\<in>set (errorListeners (snd (fail_request e err a))). \<exists>st.
                          fst (l err (method_payload ''completeRequest'') st) = Some r))"
proof -
  have "\<exists>a1. loading_alt e LoadingFail a = (Resolved JUndefined, a1)"
    using assms by (cases "process_server e") (simp_all add: loading_alt_def loading_def)
  then obtain a1 where l: "loading_alt e LoadingFail a = (Resolved JUndefined, a1)" by blast
  have fr: "fail_request e err a = report ''completeRequest'' err a1"
    using l by (simp add: fail_request_def seq_def)
  have "last (added (fail_request e err) a) = CallOnError err (method_payload ''completeRequest'')"
    using assms by (auto simp: added_fail_request)
  with report_outcome [of "''completeRequest''" err a1] fr
  show ?thesis by simp
qed

lemma fail_request_rejects: "\<exists>r. fst (settle (fail_request e err a)) = Rejected r"
proof (cases "fst (fail_request e err a)")
  case (Resolved v)
  with fail_request_not_resolved [of e err a v] show ?thesis by simp
next
  case (Rejected r)
  then show ?thesis by (cases "fail_request e err a") simp
next
  case (Thrown r)
  then show ?thesis by (cases "fail_request e err a") simp
qed

subsection \<open>The recovery never throws\<close>

lemma get_prop_truthy: "truthy v \<Longrightarrow> \<exists>x. get_prop v k = Inr x"
  by (cases v) simp_all

lemma settle_not_thrown: "fst (settle x) \<noteq> Thrown ex"
  by (cases x rule: settle.cases) simp_all

lemma on_resolve_thrown: "fst (on_resolve m f a) = Thrown ex \<Longrightarrow> fst (m a) = Thrown ex"
  by (cases "m a"; cases "fst (m a)")
     (auto simp: on_resolve_def settle_not_thrown split: outcome.splits)

lemma axios_request_not_thrown: "fst (axios_request e s p a) \<noteq> Thrown ex"
  by (simp add: axios_request_def split: sum.splits)

lemma getDBAuth_not_thrown: "fst (getDBAuth e a) \<noteq> Thrown ex"
proof
  assume t: "fst (getDBAuth e a) = Thrown ex"
  let ?a = "enter ''getDBAuth'' a"
  show False
  proof (cases "truthy (getState ?a ''user'')")
    case False
    with t show False by (simp add: getDBAuth_def exec_def reading_def reject_def)
  next
    case True
    from get_prop_truthy [OF True] obtain uid where "get_prop (getState ?a ''user'') ''user_id'' = Inr uid" by blast
    with True t have "fst (on_resolve (axios_request e CredentialFetch (credential_request e uid)) (getDBAuth_done e) ?a) = Thrown ex"
      by (simp add: getDBAuth_def exec_def reading_def attempt_def)
    from on_resolve_thrown [OF this] axios_request_not_thrown show False by blast
  qed
qed

lemma recovery_not_thrown: "fst (recovery e ep d a) \<noteq> Thrown ex"
  unfolding recovery_def using on_resolve_thrown getDBAuth_not_thrown by blast

lemma recovery_enters:
  "\<exists>k. markers (added (recovery e ep d) a) =
         Entered ''getDBAuth'' # take k [Sent CredentialFetch, Entered ''refreshToken'', Sent TokenExchange,
           Sent ProfileSync, Entered ''refreshToken'', Sent TokenExchange, Sent ProfileSync, Sent Dispatch]"
proof -
  from follows_prefix [OF follows_recovery, of e ep d a] obtain k where
    k: "markers (added (recovery e ep d) a) = take k [Entered ''getDBAuth'', Sent CredentialFetch, Entered ''refreshToken'', Sent TokenExchange,
           Sent ProfileSync, Entered ''refreshToken'', Sent TokenExchange, Sent ProfileSync, Sent Dispatch]" by blast
  from getDBAuth_enters [of e a] obtain evs where "added (getDBAuth e) a = Enter ''getDBAuth'' # evs" by blast
  then have "markers (added (recovery e ep d) a) \<noteq> []"
    by (simp add: recovery_def added_on_resolve markers_append)
  with k have "k \<noteq> 0" by auto
  then obtain j where "k = Suc j" by (cases k) auto
  with k show ?thesis by auto
qed


lemma settle_settle [simp]: "settle (settle x) = settle x"
  by (cases x rule: settle.cases) simp_all

lemma markers_fail_request [simp]: "markers (added (fail_request e err) a) = []"
  by (simp add: added_fail_request)

lemma on_reject_recovery:
  "markers (added (on_reject (recovery e ep d) (fail_request e)) a) = markers (added (recovery e ep d) a)"
  by (simp add: added_on_reject markers_append split: outcome.splits)

text \<open>The run after a refresh that the transport rejects.\<close>
lemma request_alt_status_400:
  assumes "strategy_of a = Some s" "token_expired_alt e a s"
      and "exchange_payload_alt e s (getRefreshToken e a (sname s)) = Inr p"
      and "transport e (requests (trace a)) p = Inl err"
      and "get_prop err ''response'' = Inr r" "get_prop r ''status'' = Inr st" "js_loose_eq_num st 400"
  shows "request_alt e ep d a =
           settle (on_reject (recovery e ep d) (fail_request e)
                     (a\<lparr>trace := trace a @ [Enter ''refreshToken'', Axios TokenExchange p]\<rparr>))"
  using assms refreshToken_rejected [OF assms(1,3,4)]
  by (simp add: request_alt_def async_def with_strategy_def reading_def on_reject_def on_resolve_def
        request_alt_failed_def attempt_def)

lemma request_alt_status_other:
  assumes "strategy_of a = Some s" "token_expired_alt e a s"
      and "exchange_payload_alt e s (getRefreshToken e a (sname s)) = Inr p"
      and "transport e (requests (trace a)) p = Inl err"
      and "get_prop err ''response'' = Inr r" "get_prop r ''status'' = Inr st" "\<not> js_loose_eq_num st 400"
  shows "request_alt e ep d a =
           settle (fail_request e err (a\<lparr>trace := trace a @ [Enter ''refreshToken'', Axios TokenExchange p]\<rparr>))"
  using assms refreshToken_rejected [OF assms(1,3,4)]
  by (simp add: request_alt_def async_def with_strategy_def reading_def on_reject_def on_resolve_def
        request_alt_failed_def attempt_def)

lemma added_shift:
  assumes "extends m"
  shows "new_events a (snd (m (a\<lparr>trace := trace a @ evs\<rparr>))) = evs @ added m (a\<lparr>trace := trace a @ evs\<rparr>)"
  using extends_added [OF assms, of "a\<lparr>trace := trace a @ evs\<rparr>"]
  by (simp add: new_events_def)


lemma request_refresh_rejected:
  assumes "strategy_of a = Some s" "token_expired e a s"
      and "exchange_payload e s (getRefreshToken e a (sname s)) = Inr p"
      and "transport e (requests (trace a)) p = Inl err"
  shows "markers (added (request e ep d) a) = [Sent TokenExchange, Sent Dispatch]"
proof -
  have "request e ep d a = settle (completeRequest e ep d (a\<lparr>trace := trace a @ [Axios TokenExchange p]\<rparr>))"
    using assms
    by (simp add: request_def async_def with_strategy_def reading_def attempt_def on_reject_def
          on_resolve_def axios_request_def)
  then have "added (request e ep d) a = new_events a (snd (completeRequest e ep d (a\<lparr>trace := trace a @ [Axios TokenExchange p]\<rparr>)))"
    by (simp add: added_def settle_snd)
  also have "\<dots> = [Axios TokenExchange p] @ added (completeRequest e ep d) (a\<lparr>trace := trace a @ [Axios TokenExchange p]\<rparr>)"
    by (rule added_shift) simp
  finally show ?thesis by (simp add: markers_append)
qed

text \<open>
  C2, as the code has it. In \<^verbatim>\<open>src/unnamed/part_000\<close>, when the pre-flight exchange is
  rejected by the transport with an error that carries a response:

  \<^item> with status 400 (\<^verbatim>\<open>==\<close>), the run goes on along one fixed sequence and stops
    somewhere in it: \<^verbatim>\<open>getDBAuth\<close> is entered once; it fetches the credentials at most
    once; \<^verbatim>\<open>getDBAuth\<close> itself runs \<^verbatim>\<open>refreshToken\<close>, and after \<^verbatim>\<open>getDBAuth\<close> has
    resolved \<^verbatim>\<open>request\<close> runs \<^verbatim>\<open>refreshToken\<close> once more; then the original request is
    dispatched, once and last. A run that resolves went through all of it, so through
    two runs of the refresh protocol after the recovery, not one;
  \<^item> with any other status there is no recovery and the call fails;
  \<^item> a call that does not resolve rejects, and where the loading indicator can be
    reached (on the server, or with a \<^verbatim>\<open>window\<close>) the last thing it did was to report
    the failing step's error to the listeners with method \<^verbatim>\<open>completeRequest\<close>; that
    error is what the caller gets, unless a listener threw.

  In \<^verbatim>\<open>src/lib/core/auth.js\<close> there is no recovery: after a rejected exchange the
  original request is dispatched.
\<close>

theorem request_alt_recovery:
  assumes "strategy_of a = Some s"
  shows
   "(token_expired_alt e a s
      \<and> exchange_payload_alt e s (getRefreshToken e a (sname s)) = Inr p
      \<and> transport e (requests (trace a)) p = Inl err
      \<and> get_prop err ''response'' = Inr r \<and> get_prop r ''status'' = Inr st \<longrightarrow>
      (js_loose_eq_num st 400 \<longrightarrow>
         (\<exists>k. markers (added (request_alt e ep d) a) =
                 [Entered ''refreshToken'', Sent TokenExchange, Entered ''getDBAuth'']
                 @ take k [Sent CredentialFetch,
                           Entered ''refreshToken'', Sent TokenExchange, Sent ProfileSync,
                           Entered ''refreshToken'', Sent TokenExchange, Sent ProfileSync,
                           Sent Dispatch])
       \<and> (\<forall>v. fst (request_alt e ep d a) = Resolved v \<longrightarrow>
             markers (added (request_alt e ep d) a) =
               [Entered ''refreshToken'', Sent TokenExchange, Entered ''getDBAuth'', Sent CredentialFetch,
                Entered ''refreshToken'', Sent TokenExchange, Sent ProfileSync,
                Entered ''refreshToken'', Sent TokenExchange, Sent ProfileSync,
                Sent Dispatch]))
    \<and> (\<not> js_loose_eq_num st 400 \<longrightarrow>
         markers (added (request_alt e ep d) a) = [Entered ''refreshToken'', Sent TokenExchange]
       \<and> (\<forall>v. fst (request_alt e ep d a) \<noteq> Resolved v)
       \<and> (process_server e \<or> window_defined e \<longrightarrow>
            last (added (request_alt e ep d) a) = CallOnError err (method_payload ''completeRequest'')))
    \<and> ((\<forall>v. fst (request_alt e ep d a) \<noteq> Resolved v) \<longrightarrow>
         (\<exists>r'. fst (request_alt e ep d a) = Rejected r'
            \<and> (process_server e \<or> window_defined e \<longrightarrow>
                 (\<exists>err'. last (added (request_alt e ep d) a) = CallOnError err' (method_payload ''completeRequest'')
                    \<and> last_error (snd (request_alt e ep d a)) = err'
                    \<and> (r' = err' \<or>
                        (\<exists>l\<in>set (errorListeners (snd (request_alt e ep d a))). \<exists>st'.
                            fst (l err' (method_payload ''completeRequest'') st') = Some r')))))))
  \<and> (token_expired e a s
      \<and> exchange_payload e s (getRefreshToken e a (sname s)) = Inr p
      \<and> transport e (requests (trace a)) p = Inl err \<longrightarrow>
      markers (added (request e ep d) a) = [Sent TokenExchange, Sent Dispatch])"
proof (intro conjI impI; (elim conjE)?)
  assume h: "token_expired e a s" "exchange_payload e s (getRefreshToken e a (sname s)) = Inr p"
    "transport e (requests (trace a)) p = Inl err"
  from request_refresh_rejected [OF assms h]
  show "markers (added (request e ep d) a) = [Sent TokenExchange, Sent Dispatch]" .
next
  assume h: "token_expired_alt e a s" "exchange_payload_alt e s (getRefreshToken e a (sname s)) = Inr p"
    "transport e (requests (trace a)) p = Inl err" "get_prop err ''response'' = Inr r" "get_prop r ''status'' = Inr st"
  let ?a1 = "a\<lparr>trace := trace a @ [Enter ''refreshToken'', Axios TokenExchange p]\<rparr>"
  let ?H = "on_reject (recovery e ep d) (fail_request e)"
  let ?res = "request_alt e ep d a"
  let ?evs = "added (request_alt e ep d) a"
  have exH: "extends ?H" by simp
  {
    assume s400: "js_loose_eq_num st 400"
    have eq: "?res = settle (?H ?a1)" by (rule request_alt_status_400 [OF assms h s400])
    have ev: "?evs = [Enter ''refreshToken'', Axios TokenExchange p] @ added ?H ?a1"
      using added_shift [OF exH, of a "[Enter ''refreshToken'', Axios TokenExchange p]"] eq
      by (simp add: added_def settle_snd)
    have mk: "markers ?evs = [Entered ''refreshToken'', Sent TokenExchange] @ markers (added (recovery e ep d) ?a1)"
      by (simp add: ev markers_append on_reject_recovery)
    from recovery_enters [of e ep d ?a1] mk
    show "\<exists>k. markers ?evs =
                 [Entered ''refreshToken'', Sent TokenExchange, Entered ''getDBAuth'']
                 @ take k [Sent CredentialFetch,
                           Entered ''refreshToken'', Sent TokenExchange, Sent ProfileSync,
                           Entered ''refreshToken'', Sent TokenExchange, Sent ProfileSync,
                           Sent Dispatch]" by auto
    show "\<forall>v. fst ?res = Resolved v \<longrightarrow>
             markers ?evs =
               [Entered ''refreshToken'', Sent TokenExchange, Entered ''getDBAuth'', Sent CredentialFetch,
                Entered ''refreshToken'', Sent TokenExchange, Sent ProfileSync,
                Entered ''refreshToken'', Sent TokenExchange, Sent ProfileSync,
                Sent Dispatch]"
    proof (intro allI impI)
      fix v assume "fst ?res = Resolved v"
      with eq have hv: "fst (?H ?a1) = Resolved v" by (simp add: settle_fst_Resolved)
      have "fst (recovery e ep d ?a1) = Resolved v"
      proof (cases "recovery e ep d ?a1")
        case (Pair x a2)
        show ?thesis
        proof (cases x)
          case (Rejected err')
          with Pair hv have "fst (settle (fail_request e err' a2)) = Resolved v" by (simp add: on_reject_def)
          with fail_request_rejects [of e err' a2] show ?thesis by auto
        qed (use Pair hv in \<open>simp_all add: on_reject_def\<close>)
      qed
      from follows_resolved [OF follows_recovery this] mk show "markers ?evs =
               [Entered ''refreshToken'', Sent TokenExchange, Entered ''getDBAuth'', Sent CredentialFetch,
                Entered ''refreshToken'', Sent TokenExchange, Sent ProfileSync,
                Entered ''refreshToken'', Sent TokenExchange, Sent ProfileSync,
                Sent Dispatch]" by simp
    qed
  }
  {
    assume o: "\<not> js_loose_eq_num st 400"
    have eq: "?res = settle (fail_request e err ?a1)" by (rule request_alt_status_other [OF assms h o])
    have ev: "?evs = [Enter ''refreshToken'', Axios TokenExchange p] @ added (fail_request e err) ?a1"
      using added_shift [of "fail_request e err" a "[Enter ''refreshToken'', Axios TokenExchange p]"] eq
      by (simp add: added_def settle_snd)
    show "markers ?evs = [Entered ''refreshToken'', Sent TokenExchange]"
      by (simp add: ev markers_append)
    show "\<forall>v. fst ?res \<noteq> Resolved v"
      using eq fail_request_not_resolved [of e err ?a1] by (simp add: settle_fst_Resolved)
    {
      assume "process_server e \<or> window_defined e"
      then show "last ?evs = CallOnError err (method_payload ''completeRequest'')"
        by (auto simp: ev added_fail_request)
    }
  }
  {
    assume nr: "\<forall>v. fst ?res \<noteq> Resolved v"
    have "\<exists>err' a2. ?res = settle (fail_request e err' a2) \<and> ?evs = (new_events a a2) @ added (fail_request e err') a2"
    proof (cases "js_loose_eq_num st 400")
      case False
      have eq: "?res = settle (fail_request e err ?a1)" by (rule request_alt_status_other [OF assms h False])
      have ev: "?evs = [Enter ''refreshToken'', Axios TokenExchange p] @ added (fail_request e err) ?a1"
        using added_shift [of "fail_request e err" a "[Enter ''refreshToken'', Axios TokenExchange p]"] eq
        by (simp add: added_def settle_snd)
      have "new_events a ?a1 = [Enter ''refreshToken'', Axios TokenExchange p]" by (simp add: new_events_def)
      with eq ev show ?thesis by metis
    next
      case True
      have eq: "?res = settle (?H ?a1)" by (rule request_alt_status_400 [OF assms h True])
      have ev: "?evs = [Enter ''refreshToken'', Axios TokenExchange p] @ added ?H ?a1"
        using added_shift [OF exH, of a "[Enter ''refreshToken'', Axios TokenExchange p]"] eq
        by (simp add: added_def settle_snd)
      obtain x a2 where rc: "recovery e ep d ?a1 = (x, a2)" by (cases "recovery e ep d ?a1")
      have t2: "trace a2 = trace ?a1 @ added (recovery e ep d) ?a1"
        using extends_added [OF extends_recovery, of e ep d ?a1] rc by simp
      show ?thesis
      proof (cases x)
        case (Resolved v)
        with rc eq nr show ?thesis by (simp add: on_reject_def)
      next
        case (Thrown ex)
        with rc recovery_not_thrown [of e ep d ?a1 ex] show ?thesis by simp
      next
        case (Rejected err')
        with rc eq have 1: "?res = settle (fail_request e err' a2)" by (simp add: on_reject_def)
        have "added ?H ?a1 = added (recovery e ep d) ?a1 @ added (fail_request e err') a2"
          using rc Rejected by (simp add: added_on_reject)
        with ev t2 have 2: "?evs = new_events a a2 @ added (fail_request e err') a2"
          by (simp add: new_events_def)
        from 1 2 show ?thesis by blast
      qed
    qed
    then obtain err' a2 where eq: "?res = settle (fail_request e err' a2)"
      and ev: "?evs = new_events a a2 @ added (fail_request e err') a2" by blast
    from fail_request_rejects [of e err' a2] eq obtain r' where r': "fst ?res = Rejected r'" by auto
    have "process_server e \<or> window_defined e \<longrightarrow>
                 (\<exists>err'. last ?evs = CallOnError err' (method_payload ''completeRequest'')
                    \<and> last_error (snd ?res) = err'
                    \<and> (r' = err' \<or>
                        (\<exists>l\<in>set (errorListeners (snd ?res)). \<exists>st'.
                            fst (l err' (method_payload ''completeRequest'') st') = Some r')))"
    proof
      assume ok: "process_server e \<or> window_defined e"
      from fail_request_outcome [OF ok, of err' a2] obtain r'' where
        o: "fst (settle (fail_request e err' a2)) = Rejected r''"
           "last (added (fail_request e err') a2) = CallOnError err' (method_payload ''completeRequest'')"
           "last_error (snd (fail_request e err' a2)) = err'"
           "r'' = err' \<or> (\<exists>l\<in>set (errorListeners (snd (fail_request e err' a2))). \<exists>st.
                          fst (l err' (method_payload ''completeRequest'') st) = Some r'')" by blast
      have ne: "added (fail_request e err') a2 \<noteq> []" using ok by (auto simp: added_fail_request)
      from o(1) eq r' have "r'' = r'" by simp
      with o ne ev eq show "\<exists>err'. last ?evs = CallOnError err' (method_payload ''completeRequest'')
                    \<and> last_error (snd ?res) = err'
                    \<and> (r' = err' \<or>
                        (\<exists>l\<in>set (errorListeners (snd ?res)). \<exists>st'.
                            fst (l err' (method_payload ''completeRequest'') st') = Some r'))"
        by (intro exI [where x = err']) (simp add: settle_snd)
    qed
    with r' show "\<exists>r'. fst ?res = Rejected r'
            \<and> (process_server e \<or> window_defined e \<longrightarrow>
                 (\<exists>err'. last ?evs = CallOnError err' (method_payload ''completeRequest'')
                    \<and> last_error (snd ?res) = err'
                    \<and> (r' = err' \<or>
                        (\<exists>l\<in>set (errorListeners (snd ?res)). \<exists>st'.
                            fst (l err' (method_payload ''completeRequest'') st') = Some r'))))" by blast
  }
qed

theorem request_alt_recovery_counterexample:
  "markers (added (request_alt recover_env demo_endpoint JUndefined) expired_auth) =
     [Entered ''refreshToken'', Sent TokenExchange, Entered ''getDBAuth'', Sent CredentialFetch,
      Entered ''refreshToken'', Sent TokenExchange, Sent ProfileSync,
      Entered ''refreshToken'', Sent TokenExchange, Sent ProfileSync, Sent Dispatch]
   \<and> markers (added (request recover_env demo_endpoint JUndefined) expired_auth) =
     [Sent TokenExchange, Sent Dispatch]"
  by code_simp

theorem request_alt_recovery_witness:
  "strategy_of expired_auth = Some demo_strategy
   \<and> token_expired_alt recover_env expired_auth demo_strategy
   \<and> exchange_payload_alt recover_env demo_strategy (getRefreshToken recover_env expired_auth (sname demo_strategy)) = Inr demo_exchange
   \<and> transport recover_env (requests (trace expired_auth)) demo_exchange = Inl status_400
   \<and> get_prop status_400 ''response'' = Inr (JObj [(''status'', JNum 400)])
   \<and> get_prop (JObj [(''status'', JNum 400)]) ''status'' = Inr (JNum 400)
   \<and> js_loose_eq_num (JNum 400) 400
   \<and> fst (request_alt recover_env demo_endpoint JUndefined expired_auth) = Resolved (JObj demo_token_data)
   \<and> markers (added (request_alt recover_env demo_endpoint JUndefined) expired_auth) =
         [Entered ''refreshToken'', Sent TokenExchange, Entered ''getDBAuth'', Sent CredentialFetch,
          Entered ''refreshToken'', Sent TokenExchange, Sent ProfileSync,
          Entered ''refreshToken'', Sent TokenExchange, Sent ProfileSync, Sent Dispatch]"
proof -
  have h1: "strategy_of expired_auth = Some demo_strategy"
    by (simp add: strategy_of_def expired_auth_def demo_auth_def getState_def store_getState_def)
  have h2: "token_expired_alt recover_env expired_auth demo_strategy" by code_simp
  have h3: "exchange_payload_alt recover_env demo_strategy (getRefreshToken recover_env expired_auth (sname demo_strategy)) = Inr demo_exchange"
    by code_simp
  have h4: "transport recover_env (requests (trace expired_auth)) demo_exchange = Inl status_400" by code_simp
  have h5: "get_prop status_400 ''response'' = Inr (JObj [(''status'', JNum 400)])" by code_simp
  have h6: "get_prop (JObj [(''status'', JNum 400)]) ''status'' = Inr (JNum 400)" by code_simp
  have h7: "js_loose_eq_num (JNum 400) 400" by code_simp
  have h8: "fst (request_alt recover_env demo_endpoint JUndefined expired_auth) = Resolved (JObj demo_token_data)"
    by code_simp
  from request_alt_recovery [OF h1, of recover_env demo_exchange status_400 "JObj [(''status'', JNum 400)]" "JNum 400" demo_endpoint JUndefined]
    h1 h2 h3 h4 h5 h6 h7 h8
  show ?thesis by blast
qed

section \<open>The pre-flight test\<close>

lemma exchange_payload_cases:
  "(nullish (soptions s) \<longrightarrow> exchange_payload e s rt = Inl TypeError)
   \<and> (\<not> nullish (soptions s) \<longrightarrow> (\<exists>p. exchange_payload e s rt = Inr p))"
  by (cases "soptions s") (simp_all add: exchange_payload_def)

lemma exchange_payload_alt_cases:
  "(nullish (soptions s) \<longrightarrow> exchange_payload_alt e s rt = Inl TypeError)
   \<and> (\<not> nullish (soptions s) \<longrightarrow> (\<exists>p. exchange_payload_alt e s rt = Inr p))"
  by (cases "soptions s") (simp_all add: exchange_payload_alt_def)

lemma extends_request_refreshed [simp]: "extends (request_refreshed e s now ep d response)"
  by (simp add: request_refreshed_def)

lemma extends_request_alt_failed [simp]: "extends (request_alt_failed e ep d err)"
  by (simp add: request_alt_failed_def)

lemma axios_request_answered:
  "axios_request e s p a = answered (transport e (requests (trace a)) p) (axios_send s p a)"
  by (simp add: axios_request_def answered_def axios_send_def split: sum.splits)

lemma completeRequest_started_pending:
  "completeRequest e ep d a =
     completeRequest_pending e ep d (transport e (requests (trace a)) (merged_endpoint ep d))
       (axios_send Dispatch (merged_endpoint ep d) a)"
  by (simp add: completeRequest_def completeRequest_pending_def Let_def on_reject_def on_resolve_def
        axios_request_answered)

lemma request_started_pending:
  "request e ep d a = settle (request_pending e ep d a (request_started e ep d a))"
proof (cases "strategy_of a")
  case None
  then show ?thesis
    by (simp add: request_def request_pending_def request_started_def async_def with_strategy_def throw_def)
next
  case (Some s)
  show ?thesis
  proof (cases "token_expired e a s")
    case False
    with Some show ?thesis
      by (simp add: request_def request_pending_def request_started_def async_def with_strategy_def
            reading_def completeRequest_started_pending)
  next
    case True
    show ?thesis
    proof (cases "exchange_payload e s (getRefreshToken e a (sname s))")
      case (Inl err)
      with Some True show ?thesis
        by (simp add: request_def request_pending_def request_started_def async_def with_strategy_def
              reading_def attempt_def throw_def)
    next
      case (Inr p)
      with Some True show ?thesis
        by (simp add: request_def request_pending_def request_started_def async_def with_strategy_def
              reading_def attempt_def on_reject_def on_resolve_def axios_request_answered)
    qed
  qed
qed

lemma request_direct:
  assumes "strategy_of a = Some s" "\<not> token_expired e a s"
  shows "request e ep d a = settle (completeRequest e ep d a)"
  using assms by (simp add: request_def async_def with_strategy_def reading_def)

lemma request_alt_direct:
  assumes "strategy_of a = Some s" "\<not> token_expired_alt e a s"
  shows "request_alt e ep d a = settle (on_reject (completeRequest_alt e ep d) (fail_request e) a)"
  using assms by (simp add: request_alt_def async_def with_strategy_def reading_def)

lemma request_refreshing:
  assumes "strategy_of a = Some s" "token_expired e a s"
  shows "added (request e ep d) a =
           (case exchange_payload e s (getRefreshToken e a (sname s)) of
              Inl err \<Rightarrow> []
            | Inr p \<Rightarrow> Axios TokenExchange p #
                (case fst (axios_request e TokenExchange p a) of
                   Resolved response \<Rightarrow> added (request_refreshed e s (seconds_of_ms (date_now e a)) ep d response)
                                          (snd (axios_request e TokenExchange p a))
                 | _ \<Rightarrow> [])
                @ (case fst (on_resolve (axios_request e TokenExchange p)
                               (request_refreshed e s (seconds_of_ms (date_now e a)) ep d) a) of
                     Rejected err \<Rightarrow> added (completeRequest e ep d)
                        (snd (on_resolve (axios_request e TokenExchange p)
                               (request_refreshed e s (seconds_of_ms (date_now e a)) ep d) a))
                   | _ \<Rightarrow> []))"
  using assms
  by (simp add: request_def added_with_strategy added_reading added_attempt added_on_reject added_on_resolve
        split: sum.splits)

lemma request_alt_refreshing:
  assumes "strategy_of a = Some s" "token_expired_alt e a s"
  shows "\<exists>evs. added (request_alt e ep d) a =
           Enter ''refreshToken'' #
           (case exchange_payload_alt e s (getRefreshToken e a (sname s)) of
              Inl err \<Rightarrow> []
            | Inr p \<Rightarrow> Axios TokenExchange p # evs)"
proof -
  let ?a = "enter ''refreshToken'' a"
  let ?body = "with_strategy (\<lambda>s.
       reading (\<lambda>a. getRefreshToken e a (sname s)) (\<lambda>refresh_token.
       attempt (exchange_payload_alt e s refresh_token) (\<lambda>payload.
         on_resolve (axios_request e TokenExchange payload) (refreshToken_done e))))"
  have eb: "extends ?body" by simp
  have r: "added (refreshToken e) a = Enter ''refreshToken'' # added ?body ?a"
    unfolding refreshToken_def using added_exec [OF eb, of "enter ''refreshToken''" a "[Enter ''refreshToken'']"]
    by simp
  have b: "added ?body ?a =
      (case exchange_payload_alt e s (getRefreshToken e a (sname s)) of
         Inl err \<Rightarrow> []
       | Inr p \<Rightarrow> Axios TokenExchange p #
           (case fst (axios_request e TokenExchange p ?a) of
              Resolved response \<Rightarrow> added (refreshToken_done e response) (snd (axios_request e TokenExchange p ?a))
            | _ \<Rightarrow> []))"
    using assms(1)
    by (simp add: added_with_strategy added_reading added_attempt added_on_resolve split: sum.splits)
  have full: "added (request_alt e ep d) a =
      added (refreshToken e) a @
      (case fst (refreshToken e a) of Resolved x \<Rightarrow> added (completeRequest_alt e ep d) (snd (refreshToken e a)) | _ \<Rightarrow> [])
      @ (case fst (on_resolve (refreshToken e) (\<lambda>_. completeRequest_alt e ep d) a) of
           Rejected err \<Rightarrow> added (request_alt_failed e ep d err) (snd (on_resolve (refreshToken e) (\<lambda>_. completeRequest_alt e ep d) a))
         | _ \<Rightarrow> [])"
    using assms
    by (simp add: request_alt_def added_with_strategy added_reading added_on_reject added_on_resolve)
  show ?thesis
  proof (cases "exchange_payload_alt e s (getRefreshToken e a (sname s))")
    case (Inl err)
    then have "refreshToken e a = (Thrown err, ?a)"
      using assms(1) by (simp add: refreshToken_def exec_def with_strategy_def reading_def attempt_def)
    with Inl r b full show ?thesis by (simp add: on_resolve_def)
  next
    case (Inr p)
    with r b full show ?thesis by simp
  qed
qed

text \<open>
  The test as \<^verbatim>\<open>request\<close> makes it, \<^verbatim>\<open>expiration && refresh_token && now >= expiration\<close>,
  with the clock in whole seconds in \<^verbatim>\<open>src/lib/core/auth.js\<close> and in milliseconds in
  \<^verbatim>\<open>src/unnamed/part_000\<close>. When it holds, the first request handed to the transport is
  the token exchange (in the second file after the entry into \<^verbatim>\<open>refreshToken\<close>); a
  strategy without an options object sends nothing, the read of its token endpoint being
  a TypeError. When it fails, the call hands exactly one request to the transport, the
  dispatch of the endpoint: no exchange, no entry into \<^verbatim>\<open>refreshToken\<close>.
\<close>

lemma request_first_request:
  assumes "strategy_of a = Some s"
  shows
   "(truthy (getTokenExpiration e a (sname s)) \<and> truthy (getRefreshToken e a (sname s))
       \<and> js_ge (seconds_of_ms (date_now e a)) (getTokenExpiration e a (sname s)) \<longrightarrow>
       (if nullish (soptions s) then added (request e ep d) a = []
        else \<exists>p evs. exchange_payload e s (getRefreshToken e a (sname s)) = Inr p
                 \<and> added (request e ep d) a = Axios TokenExchange p # evs))
    \<and> (\<not> truthy (getTokenExpiration e a (sname s)) \<or> \<not> truthy (getRefreshToken e a (sname s))
       \<or> \<not> js_ge (seconds_of_ms (date_now e a)) (getTokenExpiration e a (sname s)) \<longrightarrow>
       markers (added (request e ep d) a) = [Sent Dispatch])
    \<and> (truthy (getTokenExpiration e a (sname s)) \<and> truthy (getRefreshToken e a (sname s))
       \<and> js_ge (date_now e a) (getTokenExpiration e a (sname s)) \<longrightarrow>
       (if nullish (soptions s) then added (request_alt e ep d) a = [Enter ''refreshToken'']
        else \<exists>p evs. exchange_payload_alt e s (getRefreshToken e a (sname s)) = Inr p
                 \<and> added (request_alt e ep d) a = Enter ''refreshToken'' # Axios TokenExchange p # evs))
    \<and> (\<not> truthy (getTokenExpiration e a (sname s)) \<or> \<not> truthy (getRefreshToken e a (sname s))
       \<or> \<not> js_ge (date_now e a) (getTokenExpiration e a (sname s)) \<longrightarrow>
       markers (added (request_alt e ep d) a) = [Sent Dispatch])"
proof (intro conjI impI)
  assume "truthy (getTokenExpiration e a (sname s)) \<and> truthy (getRefreshToken e a (sname s))
       \<and> js_ge (seconds_of_ms (date_now e a)) (getTokenExpiration e a (sname s))"
  then have ex: "token_expired e a s" by (simp add: token_expired_def)
  from request_refreshing [OF assms ex, of ep d] exchange_payload_cases [of s e "getRefreshToken e a (sname s)"]
  show "if nullish (soptions s) then added (request e ep d) a = []
        else \<exists>p evs. exchange_payload e s (getRefreshToken e a (sname s)) = Inr p
                 \<and> added (request e ep d) a = Axios TokenExchange p # evs"
    by (cases "nullish (soptions s)") auto
next
  assume "\<not> truthy (getTokenExpiration e a (sname s)) \<or> \<not> truthy (getRefreshToken e a (sname s))
       \<or> \<not> js_ge (seconds_of_ms (date_now e a)) (getTokenExpiration e a (sname s))"
  then have ne: "\<not> token_expired e a s" by (auto simp: token_expired_def)
  from request_direct [OF assms ne, of ep d]
  show "markers (added (request e ep d) a) = [Sent Dispatch]"
    using markers_completeRequest [of e ep d a] by (simp add: added_def settle_snd)
next
  assume "truthy (getTokenExpiration e a (sname s)) \<and> truthy (getRefreshToken e a (sname s))
       \<and> js_ge (date_now e a) (getTokenExpiration e a (sname s))"
  then have ex: "token_expired_alt e a s" by (simp add: token_expired_alt_def)
  from request_alt_refreshing [OF assms ex, of ep d] exchange_payload_alt_cases [of s e "getRefreshToken e a (sname s)"]
  show "if nullish (soptions s) then added (request_alt e ep d) a = [Enter ''refreshToken'']
        else \<exists>p evs. exchange_payload_alt e s (getRefreshToken e a (sname s)) = Inr p
                 \<and> added (request_alt e ep d) a = Enter ''refreshToken'' # Axios TokenExchange p # evs"
    by (cases "nullish (soptions s)") auto
next
  assume "\<not> truthy (getTokenExpiration e a (sname s)) \<or> \<not> truthy (getRefreshToken e a (sname s))
       \<or> \<not> js_ge (date_now e a) (getTokenExpiration e a (sname s))"
  then have ne: "\<not> token_expired_alt e a s" by (auto simp: token_expired_alt_def)
  have "markers (added (on_reject (completeRequest_alt e ep d) (fail_request e)) a) = [Sent Dispatch]"
    by (simp add: added_on_reject markers_append split: outcome.splits)
  with request_alt_direct [OF assms ne, of ep d]
  show "markers (added (request_alt e ep d) a) = [Sent Dispatch]"
    by (simp add: added_def settle_snd)
qed


text \<open>
  For an expiration recorded as a number the test reads as follows. In the first file
  the clock in seconds is the clock in milliseconds divided by 1000 as long as it fits
  32 bits, that is before 2038-01-19T03:14:08Z.
\<close>

lemma seconds_of_ms_in_range:
  "0 \<le> ms \<Longrightarrow> ms < 2147483648000 \<Longrightarrow> seconds_of_ms ms = ms div 1000"
  by (simp add: seconds_of_ms_def to_int32_def)

lemma token_expired_number:
  assumes "getTokenExpiration e a (sname s) = JNum x"
      and "0 \<le> date_now e a" "date_now e a < 2147483648000"
  shows "token_expired e a s \<longleftrightarrow>
           x \<noteq> 0 \<and> truthy (getRefreshToken e a (sname s)) \<and> x \<le> date_now e a div 1000"
  using assms by (simp add: token_expired_def js_ge_def seconds_of_ms_in_range)

lemma token_expired_alt_number:
  assumes "getTokenExpiration e a (sname s) = JNum x"
  shows "token_expired_alt e a s \<longleftrightarrow>
           x \<noteq> 0 \<and> truthy (getRefreshToken e a (sname s)) \<and> x \<le> date_now e a"
  using assms by (simp add: token_expired_alt_def js_ge_def)

text \<open>The dispatch: the merged endpoint goes to the transport, and no other request.\<close>

lemma on_reject_thrown: "fst (on_reject m h a) = Thrown ex \<Longrightarrow> fst (m a) = Thrown ex"
  using settle_not_thrown [of "h err a'" ex for err a']
  by (cases "m a"; cases "fst (m a)") (auto simp: on_reject_def)

lemma completeRequest_not_thrown: "fst (completeRequest e ep d a) \<noteq> Thrown ex"
  unfolding completeRequest_def Let_def
  by (auto dest!: on_reject_thrown on_resolve_thrown simp: axios_request_not_thrown)

lemma added_completeRequest_head:
  "\<exists>evs. added (completeRequest e ep d) a = Axios Dispatch (merged_endpoint ep d) # evs \<and> markers evs = []"
  by (simp add: completeRequest_def Let_def added_on_resolve added_on_reject added_seq added_loading
        split: outcome.splits)

lemma added_completeRequest_alt_head:
  "\<exists>evs. added (completeRequest_alt e ep d) a = Axios Dispatch (merged_endpoint ep d) # evs \<and> markers evs = []"
  by (simp add: completeRequest_alt_def Let_def added_on_resolve added_seq added_loading_alt
        split: outcome.splits)

lemma request_dispatches:
  assumes "strategy_of a = Some s" "\<not> token_expired e a s"
  shows "\<exists>rest. added (request e ep d) a = Axios Dispatch (merged_endpoint ep d) # rest \<and> markers rest = []"
  using request_direct [OF assms, of ep d] added_completeRequest_head [of e ep d a]
  by (simp add: added_def settle_snd)

lemma request_alt_dispatches:
  assumes "strategy_of a = Some s" "\<not> token_expired_alt e a s"
  shows "\<exists>rest. added (request_alt e ep d) a = Axios Dispatch (merged_endpoint ep d) # rest \<and> markers rest = []"
proof -
  from added_completeRequest_alt_head [of e ep d a] obtain evs where
    h: "added (completeRequest_alt e ep d) a = Axios Dispatch (merged_endpoint ep d) # evs" "markers evs = []"
    by blast
  have "\<exists>rest. added (on_reject (completeRequest_alt e ep d) (fail_request e)) a
           = Axios Dispatch (merged_endpoint ep d) # rest \<and> markers rest = []"
    using h by (simp add: added_on_reject markers_append split: outcome.splits)
  with request_alt_direct [OF assms, of ep d] show ?thesis
    by (simp add: added_def settle_snd)
qed

text \<open>
  The refresh in \<^verbatim>\<open>src/lib/core/auth.js\<close>. When the test holds and the transport
  answers the exchange with a response that can be read, the call sends the exchange,
  stores the token, the refresh token, the expiration and the scope of the answer,
  calls the strategy's \<^verbatim>\<open>_setToken\<close> (if it still has a strategy, and that a
  \<^verbatim>\<open>_setToken\<close>), and then dispatches the endpoint; it dispatches a second time when
  the first dispatch is rejected, its \<^verbatim>\<open>catch\<close> making no difference between the
  exchange and the dispatch. When the exchange is rejected, or its answer has no data,
  the endpoint is dispatched all the same. The chain after the exchange does so on
  whatever state the answer finds.
\<close>

lemma extends_answered [simp]: "extends (answered r)"
  by (rule extendsI [where f = "\<lambda>_. []"]) (simp add: answered_def split: sum.splits)

lemma extends_completeRequest_pending [simp]: "extends (completeRequest_pending e ep d r)"
  by (simp add: completeRequest_pending_def Let_def)

lemma extends_request_pending [simp]: "extends (request_pending e ep d a0)"
  by (simp add: request_pending_def split: option.splits sum.splits)

lemma request_pending_refreshes:
  assumes s: "strategy_of a0 = Some s"
      and ex: "token_expired e a0 s"
      and p: "exchange_payload e s (getRefreshToken e a0 (sname s)) = Inr p"
      and t: "transport e (requests (trace a0)) p = Inr response"
      and r: "read_token_response response = Inr (access_token, refresh_token, expires_in, scope)"
  shows "\<exists>inv rest. added (request_pending e ep d a0) a =
           [SetUniversal (token_prefix e @ js_to_string (sname s)) access_token,
            SetUniversal (refresh_prefix e @ js_to_string (sname s)) refresh_token,
            SetUniversal (token_prefix e @ ''expiration.'' @ js_to_string (sname s))
              (js_add expires_in (JNum (seconds_of_ms (date_now e a0)))),
            SetUniversal (token_prefix e @ ''scope.'' @ js_to_string (sname s)) scope]
           @ inv @ Axios Dispatch (merged_endpoint ep d) # rest
         \<and> (inv = [] \<or> inv = [Invoke ''_setToken''])
         \<and> (markers rest = [] \<or> markers rest = [Sent Dispatch])"
proof -
  let ?now = "seconds_of_ms (date_now e a0)"
  let ?n = "sname s"
  let ?a5 = "setTokenScope e ?n scope (setTokenExpiration e ?n (js_add expires_in (JNum ?now))
               (setRefreshToken e ?n refresh_token (setToken e ?n access_token a)))"
  let ?W = "[SetUniversal (token_prefix e @ js_to_string ?n) access_token,
            SetUniversal (refresh_prefix e @ js_to_string ?n) refresh_token,
            SetUniversal (token_prefix e @ ''expiration.'' @ js_to_string ?n) (js_add expires_in (JNum ?now)),
            SetUniversal (token_prefix e @ ''scope.'' @ js_to_string ?n) scope]"
  let ?m = "on_resolve (answered (Inr response)) (request_refreshed e s ?now ep d)"
  have req: "request_pending e ep d a0 a = on_reject ?m (\<lambda>_. completeRequest e ep d) a"
    using s ex p t by (simp add: request_pending_def)
  have rr: "request_refreshed e s ?now ep d response a =
              seq (call_setToken access_token) (\<lambda>_. completeRequest e ep d) ?a5"
    using r by (simp add: request_refreshed_def attempt_def exec_def)
  have m: "?m a = settle (seq (call_setToken access_token) (\<lambda>_. completeRequest e ep d) ?a5)"
    using rr by (simp add: on_resolve_def answered_def)
  have t5: "trace ?a5 = trace a @ ?W" by simp
  obtain r6 a6 where c6: "call_setToken access_token ?a5 = (r6, a6)" by (cases "call_setToken access_token ?a5")
  obtain inv where t6: "trace a6 = trace ?a5 @ inv" and inv: "inv = [] \<or> inv = [Invoke ''_setToken'']"
    using call_setToken_trace [of access_token ?a5] c6 by (auto split: option.splits)
  have disp: "\<exists>evs. trace (snd (completeRequest e ep d b)) = trace b @ Axios Dispatch (merged_endpoint ep d) # evs
                  \<and> markers evs = []" for b
    using added_completeRequest_head [of e ep d b] extends_added [OF extends_completeRequest, of e ep d b]
    by auto
  have "\<exists>rest. trace (snd (on_reject ?m (\<lambda>_. completeRequest e ep d) a))
            = trace a6 @ Axios Dispatch (merged_endpoint ep d) # rest
          \<and> (markers rest = [] \<or> markers rest = [Sent Dispatch])"
  proof (cases r6)
    case (Resolved x)
    obtain r7 a7 where c7: "completeRequest e ep d a6 = (r7, a7)" by (cases "completeRequest e ep d a6")
    from disp [of a6] c7 obtain evs where
      t7: "trace a7 = trace a6 @ Axios Dispatch (merged_endpoint ep d) # evs" "markers evs = []" by auto
    have m': "?m a = settle (r7, a7)" using m c6 Resolved c7 by (simp add: seq_def)
    show ?thesis
    proof (cases r7)
      case (Resolved v)
      with m' t7 show ?thesis by (auto simp: on_reject_def)
    next
      case (Rejected err)
      from disp [of a7] obtain evs' where
        "trace (snd (completeRequest e ep d a7)) = trace a7 @ Axios Dispatch (merged_endpoint ep d) # evs'"
        "markers evs' = []" by auto
      with Rejected m' t7 show ?thesis by (auto simp: on_reject_def settle_snd markers_append)
    next
      case (Thrown err)
      with c7 completeRequest_not_thrown [of e ep d a6 err] show ?thesis by simp
    qed
  next
    case (Rejected err)
    then have m': "?m a = (Rejected err, a6)" using m c6 by (simp add: seq_def)
    from disp [of a6] m' show ?thesis by (auto simp: on_reject_def settle_snd)
  next
    case (Thrown err)
    then have m': "?m a = (Rejected err, a6)" using m c6 by (simp add: seq_def)
    from disp [of a6] m' show ?thesis by (auto simp: on_reject_def settle_snd)
  qed
  then obtain rest where
    "trace (snd (request_pending e ep d a0 a)) = trace a @ ?W @ inv @ Axios Dispatch (merged_endpoint ep d) # rest"
    and rest: "markers rest = [] \<or> markers rest = [Sent Dispatch]"
    using req t6 t5 by auto
  then have "added (request_pending e ep d a0) a = ?W @ inv @ Axios Dispatch (merged_endpoint ep d) # rest"
    by (intro added_eqI)
  with inv rest show ?thesis by blast
qed

lemma request_refreshes:
  assumes s: "strategy_of a = Some s"
      and ex: "token_expired e a s"
      and p: "exchange_payload e s (getRefreshToken e a (sname s)) = Inr p"
      and t: "transport e (requests (trace a)) p = Inr response"
      and r: "read_token_response response = Inr (access_token, refresh_token, expires_in, scope)"
  shows "\<exists>inv rest. added (request e ep d) a =
           [Axios TokenExchange p,
            SetUniversal (token_prefix e @ js_to_string (sname s)) access_token,
            SetUniversal (refresh_prefix e @ js_to_string (sname s)) refresh_token,
            SetUniversal (token_prefix e @ ''expiration.'' @ js_to_string (sname s))
              (js_add expires_in (JNum (seconds_of_ms (date_now e a)))),
            SetUniversal (token_prefix e @ ''scope.'' @ js_to_string (sname s)) scope]
           @ inv @ Axios Dispatch (merged_endpoint ep d) # rest
         \<and> (inv = [] \<or> inv = [Invoke ''_setToken''])
         \<and> (markers rest = [] \<or> markers rest = [Sent Dispatch])"
proof -
  let ?a1 = "axios_send TokenExchange p a"
  have st: "request_started e ep d a = ?a1" using s ex p by (simp add: request_started_def)
  from request_pending_refreshes [OF s ex p t r, of ep d ?a1] obtain inv rest where
    h: "added (request_pending e ep d a) ?a1 =
           [SetUniversal (token_prefix e @ js_to_string (sname s)) access_token,
            SetUniversal (refresh_prefix e @ js_to_string (sname s)) refresh_token,
            SetUniversal (token_prefix e @ ''expiration.'' @ js_to_string (sname s))
              (js_add expires_in (JNum (seconds_of_ms (date_now e a)))),
            SetUniversal (token_prefix e @ ''scope.'' @ js_to_string (sname s)) scope]
           @ inv @ Axios Dispatch (merged_endpoint ep d) # rest"
       "inv = [] \<or> inv = [Invoke ''_setToken'']" "markers rest = [] \<or> markers rest = [Sent Dispatch]"
    by blast
  have "trace (snd (request e ep d a)) = trace ?a1 @ added (request_pending e ep d a) ?a1"
    using request_started_pending [of e ep d a] st extends_added [OF extends_request_pending, of e ep d a ?a1]
    by (simp add: settle_snd)
  with h(1) have "added (request e ep d) a =
           [Axios TokenExchange p,
            SetUniversal (token_prefix e @ js_to_string (sname s)) access_token,
            SetUniversal (refresh_prefix e @ js_to_string (sname s)) refresh_token,
            SetUniversal (token_prefix e @ ''expiration.'' @ js_to_string (sname s))
              (js_add expires_in (JNum (seconds_of_ms (date_now e a)))),
            SetUniversal (token_prefix e @ ''scope.'' @ js_to_string (sname s)) scope]
           @ inv @ Axios Dispatch (merged_endpoint ep d) # rest"
    by (intro added_eqI) simp
  with h(2,3) show ?thesis by blast
qed

lemma request_refresh_failed:
  assumes s: "strategy_of a = Some s"
      and ex: "token_expired e a s"
      and p: "exchange_payload e s (getRefreshToken e a (sname s)) = Inr p"
      and t: "transport e (requests (trace a)) p = Inl err
              \<or> (\<exists>response err'. transport e (requests (trace a)) p = Inr response
                    \<and> read_token_response response = Inl err')"
  shows "\<exists>rest. added (request e ep d) a =
           Axios TokenExchange p # Axios Dispatch (merged_endpoint ep d) # rest \<and> markers rest = []"
proof -
  let ?now = "seconds_of_ms (date_now e a)"
  let ?a1 = "a\<lparr>trace := trace a @ [Axios TokenExchange p]\<rparr>"
  let ?m = "on_resolve (axios_request e TokenExchange p) (request_refreshed e s ?now ep d)"
  have req: "request e ep d a = settle (on_reject ?m (\<lambda>_. completeRequest e ep d) a)"
    using s ex p by (simp add: request_def async_def with_strategy_def reading_def attempt_def)
  from t have "\<exists>err. ?m a = (Rejected err, ?a1)"
    by (auto simp: on_resolve_def axios_request_def request_refreshed_def attempt_def)
  then obtain err' where m: "?m a = (Rejected err', ?a1)" by blast
  from added_completeRequest_head [of e ep d ?a1] extends_added [OF extends_completeRequest, of e ep d ?a1]
  obtain rest where "trace (snd (completeRequest e ep d ?a1)) =
      trace a @ Axios TokenExchange p # Axios Dispatch (merged_endpoint ep d) # rest" "markers rest = []"
    by auto
  with req m have "trace (snd (request e ep d a)) =
      trace a @ Axios TokenExchange p # Axios Dispatch (merged_endpoint ep d) # rest \<and> markers rest = []"
    by (simp add: on_reject_def settle_snd)
  then show ?thesis using added_eqI by blast
qed

text \<open>
  The refresh in \<^verbatim>\<open>src/unnamed/part_000\<close>. A run of \<^verbatim>\<open>refreshToken\<close> that resolves has
  sent the exchange, stored the four values of the answer (the expiration in
  milliseconds), called \<^verbatim>\<open>_setToken\<close> and sent the profile to the update endpoint; the
  keys are those of the active strategy as long as none of them is the key of the
  active strategy's name. \<^verbatim>\<open>request\<close> dispatches the endpoint right after it.
\<close>

lemma strategy_of_setUniversal: "k \<noteq> ''strategy'' \<Longrightarrow> strategy_of (setUniversal k v a) = strategy_of a"
  by (simp add: strategy_of_def store_defs)

lemma strategy_of_trace [simp]: "strategy_of (a\<lparr>trace := t\<rparr>) = strategy_of a"
  by (simp add: strategy_of_def store_defs)

lemma call_setToken_resolved:
  "call_setToken t a = (Resolved x, a') \<Longrightarrow> trace a' = trace a @ [Invoke ''_setToken'']"
  by (auto simp: call_setToken_def with_strategy_def Let_def split: option.splits prod.splits)

lemma updateUser_resolved:
  "updateUser e u a = (Resolved x, a') \<Longrightarrow> \<exists>data. trace a' = trace a @ [Axios ProfileSync data]"
proof -
  assume u: "updateUser e u a = (Resolved x, a')"
  obtain r1 a1 where d: "user_data e u a = (r1, a1)" by (cases "user_data e u a")
  have "trace a1 = trace a" using extends_added [OF extends_user_data, of e u a] d by simp
  with u d show ?thesis
    by (cases r1) (auto simp: updateUser_def seq_def exec_def ret_def)
qed

lemma refreshToken_resolves:
  assumes s: "strategy_of a = Some s"
      and k: "token_prefix e @ js_to_string (sname s) \<noteq> ''strategy''"
             "refresh_prefix e @ js_to_string (sname s) \<noteq> ''strategy''"
             "token_prefix e @ ''expiration.'' @ js_to_string (sname s) \<noteq> ''strategy''"
      and p: "exchange_payload_alt e s (getRefreshToken e a (sname s)) = Inr p"
      and t: "transport e (requests (trace a)) p = Inr response"
      and r: "read_token_response response = Inr (access_token, refresh_token, expires_in, scope)"
      and res: "fst (refreshToken e a) = Resolved v"
  shows "\<exists>data. added (refreshToken e) a =
           [Enter ''refreshToken'', Axios TokenExchange p,
            SetUniversal (token_prefix e @ js_to_string (sname s)) access_token,
            SetUniversal (refresh_prefix e @ js_to_string (sname s)) refresh_token,
            SetUniversal (token_prefix e @ ''expiration.'' @ js_to_string (sname s))
              (js_add (js_mul expires_in (JNum 1000)) (JNum (clock e (length (trace a) + 2)))),
            SetUniversal (token_prefix e @ ''scope.'' @ js_to_string (sname s)) scope,
            Invoke ''_setToken'', Axios ProfileSync data]"
proof -
  let ?n = "sname s"
  let ?a0 = "enter ''refreshToken'' a"
  let ?a1 = "?a0\<lparr>trace := trace ?a0 @ [Axios TokenExchange p]\<rparr>"
  let ?exp = "js_add (js_mul expires_in (JNum 1000)) (JNum (clock e (length (trace a) + 2)))"
  let ?a2 = "setToken e ?n access_token ?a1"
  let ?a3 = "setRefreshToken e ?n refresh_token ?a2"
  let ?a4 = "setTokenExpiration e ?n ?exp ?a3"
  let ?a5 = "setTokenScope e ?n scope ?a4"
  let ?rest = "seq (call_setToken access_token) (\<lambda>_.
          reading (\<lambda>a. getState a ''user'') (\<lambda>user.
          seq (updateUser e user) (\<lambda>_. ret JUndefined)))"
  have s0: "strategy_of ?a0 = Some s" using s by (simp add: strategy_of_def enter_def store_defs)
  have s1: "strategy_of ?a1 = Some s" using s0 by simp
  have s2: "strategy_of ?a2 = Some s" using s1 k(1) by (simp add: setToken_def strategy_of_setUniversal)
  have s3: "strategy_of ?a3 = Some s" using s2 k(2) by (simp add: setRefreshToken_def strategy_of_setUniversal)
  have s4: "strategy_of ?a4 = Some s" using s3 k(3) by (simp add: setTokenExpiration_def strategy_of_setUniversal)
  have ax: "axios_request e TokenExchange p ?a0 = (Resolved response, ?a1)"
    using t by (simp add: axios_request_def requests_append)
  have now: "date_now e ?a1 = clock e (length (trace a) + 2)" by (simp add: date_now_def)
  have dn: "refreshToken_done e response ?a1 = ?rest ?a5"
    using r s1 s2 s3 s4 now
    by (simp add: refreshToken_done_def attempt_def reading_def with_strategy_def exec_def)
  have rt: "refreshToken e a = settle (?rest ?a5)"
    using s0 p ax dn
    by (simp add: refreshToken_def exec_def with_strategy_def reading_def attempt_def on_resolve_def)
  have t5: "trace ?a5 = trace a @
           [Enter ''refreshToken'', Axios TokenExchange p,
            SetUniversal (token_prefix e @ js_to_string ?n) access_token,
            SetUniversal (refresh_prefix e @ js_to_string ?n) refresh_token,
            SetUniversal (token_prefix e @ ''expiration.'' @ js_to_string ?n) ?exp,
            SetUniversal (token_prefix e @ ''scope.'' @ js_to_string ?n) scope]" by simp
  from res rt have fr: "fst (?rest ?a5) = Resolved v" by (simp add: settle_fst_Resolved)
  obtain r6 a6 where c6: "call_setToken access_token ?a5 = (r6, a6)" by (cases "call_setToken access_token ?a5")
  with fr obtain x where r6: "r6 = Resolved x" by (cases r6) (simp_all add: seq_def)
  from call_setToken_resolved [OF c6 [unfolded r6]] have t6: "trace a6 = trace ?a5 @ [Invoke ''_setToken'']" .
  obtain r7 a7 where c7: "updateUser e (getState a6 ''user'') a6 = (r7, a7)"
    by (cases "updateUser e (getState a6 ''user'') a6")
  with fr c6 r6 obtain y where r7: "r7 = Resolved y" by (cases r7) (simp_all add: seq_def reading_def)
  from updateUser_resolved [OF c7 [unfolded r7]] obtain data where
    t7: "trace a7 = trace a6 @ [Axios ProfileSync data]" by blast
  have "snd (refreshToken e a) = a7" using rt c6 r6 c7 r7 by (simp add: seq_def reading_def ret_def)
  with t7 t6 t5 show ?thesis by (intro exI [of _ data] added_eqI) simp
qed

lemma request_alt_refreshes:
  assumes s: "strategy_of a = Some s"
      and ex: "token_expired_alt e a s"
      and res: "fst (refreshToken e a) = Resolved v"
  shows "\<exists>rest. added (request_alt e ep d) a =
           added (refreshToken e) a @ Axios Dispatch (merged_endpoint ep d) # rest"
proof -
  let ?m = "on_resolve (refreshToken e) (\<lambda>_. completeRequest_alt e ep d)"
  have "added (request_alt e ep d) a =
      added (refreshToken e) a @ added (completeRequest_alt e ep d) (snd (refreshToken e a))
      @ (case fst (?m a) of
           Rejected err \<Rightarrow> added (request_alt_failed e ep d err) (snd (?m a))
         | _ \<Rightarrow> [])"
    using s ex res
    by (simp add: request_alt_def added_with_strategy added_reading added_on_reject added_on_resolve)
  with added_completeRequest_alt_head [of e ep d "snd (refreshToken e a)"] show ?thesis by auto
qed

text \<open>
  C1. The session records the expiration 1 and the refresh token \<^verbatim>\<open>r0\<close> for the active
  strategy, and the transport answers the exchange. At 2038-01-19T03:14:07.999Z
  \<^verbatim>\<open>request\<close> of \<^verbatim>\<open>src/lib/core/auth.js\<close> refreshes: it sends the exchange, stores the
  answer and dispatches the endpoint. One millisecond later the clock is still past
  the expiration, but \<^verbatim>\<open>now.getTime() / 1000 | 0\<close> has wrapped to \<open>- 2\<^sup>3\<^sup>1\<close>, the test
  \<^verbatim>\<open>(now.getTime() / 1000 | 0) >= expiration\<close> fails, and the same call dispatches the
  endpoint with the stale token and no exchange. \<^verbatim>\<open>request\<close> of
  \<^verbatim>\<open>src/unnamed/part_000\<close>, which compares \<^verbatim>\<open>Date.now()\<close>, refreshes at both clocks.
\<close>

theorem request_after_2038:
  "getTokenExpiration late_env expired_auth (JStr ''local'') = JNum 1
   \<and> getRefreshToken late_env expired_auth (JStr ''local'') = JStr ''r0''
   \<and> date_now eve_env expired_auth = 2147483647999
   \<and> seconds_of_ms (date_now eve_env expired_auth) = 2147483647
   \<and> added (request eve_env demo_endpoint JUndefined) expired_auth =
       [Axios TokenExchange
          (JObj [(''method'', JStr ''post''), (''url'', JStr ''http://idp/token''), (''baseURL'', JBool False),
                 (''data'', JObj [(''client_id'', JStr ''cid''), (''refresh_token'', JStr ''r0''),
                                  (''grant_type'', JStr ''refresh_token'')])]),
        SetUniversal ''_token.local'' (JStr ''Bearer fresh''),
        SetUniversal ''_refresh_token.local'' (JStr ''r1''),
        SetUniversal ''_token.expiration.local'' (JNum 2147487247),
        SetUniversal ''_token.scope.local'' (JStr ''read''),
        Invoke ''_setToken'',
        Axios Dispatch (JObj [(''url'', JStr ''/me'')]), LoadingFinish]
   \<and> date_now late_env expired_auth = 2147483648000
   \<and> seconds_of_ms (date_now late_env expired_auth) = - 2147483648
   \<and> added (request late_env demo_endpoint JUndefined) expired_auth =
       [Axios Dispatch (JObj [(''url'', JStr ''/me'')]), LoadingFinish]
   \<and> getToken late_env (snd (request late_env demo_endpoint JUndefined expired_auth)) (JStr ''local'')
       = JStr ''Bearer stale''
   \<and> markers (added (request_alt eve_env demo_endpoint JUndefined) expired_auth) =
       [Entered ''refreshToken'', Sent TokenExchange, Sent ProfileSync, Sent Dispatch]
   \<and> markers (added (request_alt late_env demo_endpoint JUndefined) expired_auth) =
       [Entered ''refreshToken'', Sent TokenExchange, Sent ProfileSync, Sent Dispatch]
   \<and> getToken late_env (snd (request_alt late_env demo_endpoint JUndefined expired_auth)) (JStr ''local'')
       = JStr ''Bearer fresh''"
  by code_simp

section \<open>Requests on behalf of a strategy\<close>

lemma map_of_obj_set: "map_of (obj_set k v kvs) = (map_of kvs)(k \<mapsto> v)"
  by (induction kvs) (auto simp: fun_eq_iff)

lemma get_prop_obj_set:
  "get_prop (JObj (obj_set k v kvs)) k' = (if k' = k then Inr v else get_prop (JObj kvs) k')"
  by (simp add: map_of_obj_set)

lemma default_headers_object:
  "default_headers (JObj kvs) =
     Inr (if truthy (case map_of kvs ''headers'' of None \<Rightarrow> JUndefined | Some h \<Rightarrow> h) then JObj kvs
          else JObj (obj_set ''headers'' (JObj []) kvs))"
  by (simp add: default_headers_def)

lemma prepared_endpoint_object:
  "\<exists>kvs. prepared_endpoint endpoint defaults = JObj kvs
         \<and> default_headers (object_assign defaults endpoint) = Inr (JObj kvs)
         \<and> (\<exists>h. map_of kvs ''headers'' = Some h \<and> truthy h)"
  by (auto simp: prepared_endpoint_def object_assign_def default_headers_object map_of_obj_set
      split: option.splits)

text \<open>
  What \<^verbatim>\<open>requestWith\<close> does in each file. It reads the token stored for the strategy
  and merges the endpoint over the defaults; the headers of the result become an empty
  object when there are none, and nothing else of it changes. In
  \<^verbatim>\<open>src/lib/core/auth.js\<close>: when the headers (an object) hold no \<^verbatim>\<open>Authorization\<close> and the
  token is set and truthy, \<^verbatim>\<open>request\<close> gets the endpoint with the token as its
  \<^verbatim>\<open>Authorization\<close> header, every other header and property as before; when the header
  is there already or the token is unset or falsy, \<^verbatim>\<open>request\<close> gets the endpoint as
  prepared. In \<^verbatim>\<open>src/unnamed/part_000\<close> \<^verbatim>\<open>request\<close> gets the endpoint as prepared in
  every case.
\<close>

lemma requestWith_cases:
  fixes e :: env and a :: auth and n endpoint defaults :: jsval
  defines "ep0 \<equiv> prepared_endpoint endpoint defaults"
      and "token \<equiv> getToken e a n"
  shows
   "(\<not> truthy (header ep0 ''Authorization'') \<and> isSet e token \<and> truthy token
       \<and> get_prop ep0 ''headers'' = Inr (JObj hs) \<longrightarrow>
       (\<exists>ep'. requestWith e n endpoint defaults a = request e ep' JUndefined a
             \<and> header ep' ''Authorization'' = token
             \<and> (\<forall>k. k \<noteq> ''Authorization'' \<longrightarrow> header ep' k = header ep0 k)
             \<and> (\<forall>k. k \<noteq> ''headers'' \<longrightarrow> get_prop ep' k = get_prop ep0 k)))
    \<and> (truthy (header ep0 ''Authorization'') \<or> \<not> isSet e token \<or> \<not> truthy token \<longrightarrow>
         requestWith e n endpoint defaults a = request e ep0 JUndefined a)
    \<and> requestWith_alt e n endpoint defaults a = request_alt e ep0 JUndefined a
    \<and> (\<forall>k. k \<noteq> ''headers'' \<longrightarrow> get_prop ep0 k = get_prop (object_assign defaults endpoint) k)
    \<and> (\<forall>h. get_prop (object_assign defaults endpoint) ''headers'' = Inr h \<longrightarrow>
           get_prop ep0 ''headers'' = Inr (if truthy h then h else JObj []))"
proof -
  from prepared_endpoint_object [of endpoint defaults] obtain kvs h0 where
    ep: "ep0 = JObj kvs" and dh: "default_headers (object_assign defaults endpoint) = Inr (JObj kvs)"
    and h0: "map_of kvs ''headers'' = Some h0" "truthy h0"
    unfolding ep0_def by blast
  from get_prop_truthy [OF h0(2)] obtain v where v: "get_prop h0 ''Authorization'' = Inr v" by blast
  have hd: "header ep0 ''Authorization'' = v" using ep h0 v by (simp add: header_def)
  have gh: "get_prop ep0 ''headers'' = Inr h0" using ep h0 by simp
  have plain: "truthy (header ep0 ''Authorization'') \<or> \<not> isSet e token \<or> \<not> truthy token \<Longrightarrow>
         requestWith e n endpoint defaults a = request e ep0 JUndefined a"
    using dh ep h0 v hd
    by (auto simp: requestWith_def reading_def attempt_def token_def)
  have inject: "\<exists>ep'. requestWith e n endpoint defaults a = request e ep' JUndefined a
             \<and> header ep' ''Authorization'' = token
             \<and> (\<forall>k. k \<noteq> ''Authorization'' \<longrightarrow> header ep' k = header ep0 k)
             \<and> (\<forall>k. k \<noteq> ''headers'' \<longrightarrow> get_prop ep' k = get_prop ep0 k)"
    if c: "\<not> truthy (header ep0 ''Authorization'')" "isSet e token" "truthy token"
      and o: "get_prop ep0 ''headers'' = Inr (JObj hs)"
  proof -
    from o gh have h0': "h0 = JObj hs" by simp
    let ?ep' = "JObj (obj_set ''headers'' (JObj (obj_set ''Authorization'' token hs)) kvs)"
    have "requestWith e n endpoint defaults a = request e ?ep' JUndefined a"
      using dh ep h0 v hd c h0'
      by (simp add: requestWith_def reading_def attempt_def token_def)
    moreover have "header ?ep' ''Authorization'' = token"
      by (simp add: header_def map_of_obj_set)
    moreover have "\<forall>k. k \<noteq> ''Authorization'' \<longrightarrow> header ?ep' k = header ep0 k"
      using ep h0 h0' by (simp add: header_def map_of_obj_set)
    moreover have "\<forall>k. k \<noteq> ''headers'' \<longrightarrow> get_prop ?ep' k = get_prop ep0 k"
      using ep by (simp add: map_of_obj_set)
    ultimately show ?thesis by blast
  qed
  have alt: "requestWith_alt e n endpoint defaults a = request_alt e ep0 JUndefined a"
    using dh ep by (simp add: requestWith_alt_def reading_def attempt_def)
  have same: "\<forall>k. k \<noteq> ''headers'' \<longrightarrow> get_prop ep0 k = get_prop (object_assign defaults endpoint) k"
    by (auto simp: ep0_def prepared_endpoint_def object_assign_def default_headers_object map_of_obj_set)
  have hdrs: "\<forall>h. get_prop (object_assign defaults endpoint) ''headers'' = Inr h \<longrightarrow>
           get_prop ep0 ''headers'' = Inr (if truthy h then h else JObj [])"
    by (auto simp: ep0_def prepared_endpoint_def object_assign_def default_headers_object map_of_obj_set
        split: option.splits)
  from plain inject alt same hdrs show ?thesis by blast
qed

text \<open>
  In \<^verbatim>\<open>src/unnamed/part_000\<close> the strategy named in the call has no part in what is
  sent: the token read for it goes into a variable that is not used again.
\<close>

lemma requestWith_alt_any_strategy:
  "requestWith_alt e n endpoint defaults = requestWith_alt e n' endpoint defaults"
  by (simp add: requestWith_alt_def reading_def fun_eq_iff)

text \<open>
  C3. The session holds the token \<^verbatim>\<open>Bearer stale\<close> for the strategy \<^verbatim>\<open>local\<close>, a set
  and non-empty value, and the endpoint \<^verbatim>\<open>{url: '/me'}\<close> has no headers, so none
  named \<^verbatim>\<open>Authorization\<close>. \<^verbatim>\<open>requestWith('local', {url: '/me'})\<close> of
  \<^verbatim>\<open>src/unnamed/part_000\<close> hands the transport the endpoint with empty headers: the
  token is read and not injected. \<^verbatim>\<open>requestWith\<close> of \<^verbatim>\<open>src/lib/core/auth.js\<close>, on the
  same session and endpoint, sends the token as the \<^verbatim>\<open>Authorization\<close> header.
\<close>

theorem requestWith_alt_sends_no_token:
  "getToken demo_env tokened_auth (JStr ''local'') = JStr ''Bearer stale''
   \<and> isSet demo_env (getToken demo_env tokened_auth (JStr ''local''))
   \<and> header (prepared_endpoint demo_endpoint JUndefined) ''Authorization'' = JUndefined
   \<and> requests (added (requestWith_alt demo_env (JStr ''local'') demo_endpoint JUndefined) tokened_auth)
       = [JObj [(''url'', JStr ''/me''), (''headers'', JObj [])]]
   \<and> requests (added (requestWith demo_env (JStr ''local'') demo_endpoint JUndefined) tokened_auth)
       = [JObj [(''url'', JStr ''/me''), (''headers'', JObj [(''Authorization'', JStr ''Bearer stale'')])]]"
  by code_simp

section \<open>Login\<close>

text \<open>
  C7, as the code has it. With a \<^verbatim>\<open>login\<close> capability, \<^verbatim>\<open>login()\<close> calls the strategy's
  \<^verbatim>\<open>login\<close> first, on the store as it is, \<^verbatim>\<open>busy\<close> included; only when that call has
  returned its promise is \<^verbatim>\<open>busy\<close> set to true (and the current error cleared). The
  promise settles with \<^verbatim>\<open>busy\<close> true, and \<^verbatim>\<open>busy\<close> is set back to false when it has
  settled, resolved or rejected. On a rejection the error is then reported to the
  listeners with method \<^verbatim>\<open>login\<close> and the call rejects, with that error unless a
  listener threw. A synchronous throw of the strategy's \<^verbatim>\<open>login\<close> leaves \<^verbatim>\<open>login()\<close> as
  it is, with nothing set and nothing reported. Without the capability the call
  resolves at once and changes nothing.
\<close>

theorem login_busy_bracket:
  assumes "strategy_of a = Some s"
  shows
   "(s_login s = None \<longrightarrow> login a = (Resolved JUndefined, a))
    \<and> (s_login s = Some h \<and> h (store a) = (Throws err, st) \<longrightarrow>
         login a = (Thrown err, a\<lparr>store := st, trace := trace a @ [Invoke ''login'']\<rparr>))
    \<and> (s_login s = Some h \<and> h (store a) = (Returns (Promise f), st) \<longrightarrow>
         (case f (store_setState ''busy'' (JBool True) st) of
            (Inr v, st') \<Rightarrow>
              login a = (Resolved JUndefined,
                         a\<lparr>store := store_setState ''busy'' (JBool False) st', last_error := JNull,
                           trace := trace a @ [Invoke ''login'', SetState ''busy'' (JBool True),
                                               SetState ''busy'' (JBool False)]\<rparr>)
          | (Inl rejection, st') \<Rightarrow>
              (\<exists>r a'. login a = (Rejected r, a')
                 \<and> trace a' = trace a @ [Invoke ''login'', SetState ''busy'' (JBool True),
                                          SetState ''busy'' (JBool False),
                                          CallOnError rejection (method_payload ''login'')]
                 \<and> last_error a' = rejection
                 \<and> (r = rejection \<or>
                     (\<exists>l\<in>set (errorListeners a'). \<exists>st''.
                         fst (l rejection (method_payload ''login'') st'') = Some r)))))"
proof (intro conjI impI; (elim conjE)?)
  assume "s_login s = None"
  with assms show "login a = (Resolved JUndefined, a)"
    by (simp add: login_def with_strategy_def ret_def)
next
  assume "s_login s = Some h" "h (store a) = (Throws err, st)"
  with assms show "login a = (Thrown err, a\<lparr>store := st, trace := trace a @ [Invoke ''login'']\<rparr>)"
    by (simp add: login_def with_strategy_def on_reject_def seq_def start_hook_def)
next
  assume h: "s_login s = Some h" "h (store a) = (Returns (Promise f), st)"
  let ?a1 = "a\<lparr>store := st, trace := trace a @ [Invoke ''login'']\<rparr>"
  let ?a2 = "(setState ''busy'' (JBool True) ?a1)\<lparr>last_error := JNull\<rparr>"
  have sh: "start_hook ''login'' h a = (Resolved (Promise f), ?a1)"
    using h by (simp add: start_hook_def)
  have st2: "store ?a2 = store_setState ''busy'' (JBool True) st" by (simp add: setState_def)
  obtain res st' where f: "f (store_setState ''busy'' (JBool True) st) = (res, st')"
    by (cases "f (store_setState ''busy'' (JBool True) st)")
  show "case f (store_setState ''busy'' (JBool True) st) of
            (Inr v, st') \<Rightarrow>
              login a = (Resolved JUndefined,
                         a\<lparr>store := store_setState ''busy'' (JBool False) st', last_error := JNull,
                           trace := trace a @ [Invoke ''login'', SetState ''busy'' (JBool True),
                                               SetState ''busy'' (JBool False)]\<rparr>)
          | (Inl rejection, st') \<Rightarrow>
              (\<exists>r a'. login a = (Rejected r, a')
                 \<and> trace a' = trace a @ [Invoke ''login'', SetState ''busy'' (JBool True),
                                          SetState ''busy'' (JBool False),
                                          CallOnError rejection (method_payload ''login'')]
                 \<and> last_error a' = rejection
                 \<and> (r = rejection \<or>
                     (\<exists>l\<in>set (errorListeners a'). \<exists>st''.
                         fst (l rejection (method_payload ''login'') st'') = Some r)))"
  proof (cases res)
    case (Inr v)
    with assms h f show ?thesis
      by (simp add: login_def with_strategy_def on_reject_def on_resolve_def seq_def start_hook_def
            wrapLogin_def exec_def ret_def setState_def)
  next
    case (Inl rejection)
    let ?a3 = "setState ''busy'' (JBool False) (?a2\<lparr>store := st'\<rparr>)"
    have w: "wrapLogin (Promise f) ?a1 = (Rejected rejection, ?a3)"
      using f Inl by (simp add: wrapLogin_def exec_def on_reject_def on_resolve_def reject_def setState_def)
    have l: "login a = settle (report ''login'' rejection ?a3)"
      using assms h sh w by (simp add: login_def with_strategy_def on_reject_def seq_def)
    from report_outcome [of "''login''" rejection ?a3] obtain r where
      r: "fst (settle (report ''login'' rejection ?a3)) = Rejected r"
         "last_error (snd (report ''login'' rejection ?a3)) = rejection"
         "r = rejection \<or> (\<exists>l\<in>set (errorListeners (snd (report ''login'' rejection ?a3))). \<exists>st.
              fst (l rejection (method_payload ''login'') st) = Some r)" by blast
    have t: "trace (snd (report ''login'' rejection ?a3)) = trace ?a3 @ [CallOnError rejection (method_payload ''login'')]"
      by (rule report_trace)
    have "login a = (Rejected r, snd (settle (report ''login'' rejection ?a3)))"
      using l r(1) by (metis prod.collapse)
    with r t f Inl show ?thesis
      by (auto simp: settle_snd setState_def)
  qed
qed

theorem login_busy_bracket_counterexample:
  "getState login_auth ''busy'' = JUndefined
   \<and> getState (snd (login login_auth)) ''busy_at_call'' = JUndefined
   \<and> getState (snd (login login_auth)) ''busy_at_settle'' = JBool True
   \<and> new_events login_auth (snd (login login_auth))
       = [Invoke ''login'', SetState ''busy'' (JBool True), SetState ''busy'' (JBool False)]"
  by code_simp

theorem login_busy_bracket_witness:
  "strategy_of demo_auth = Some demo_strategy \<and> s_login demo_strategy = None
   \<and> login demo_auth = (Resolved JUndefined, demo_auth)
   \<and> strategy_of login_auth = Some (demo_strategy\<lparr>s_login := Some login_hook\<rparr>)
   \<and> s_login (demo_strategy\<lparr>s_login := Some login_hook\<rparr>) = Some login_hook
   \<and> fst (login_hook (store login_auth)) =
        Returns (Promise (\<lambda>st'. (Inr JUndefined, store_setState ''busy_at_settle'' (store_getState st' ''busy'') st')))
   \<and> fst (login login_auth) = Resolved JUndefined
   \<and> trace (snd (login login_auth)) =
        [Invoke ''login'', SetState ''busy'' (JBool True), SetState ''busy'' (JBool False)]
   \<and> strategy_of failing_auth = Some (demo_strategy\<lparr>s_login := Some failing_hook\<rparr>)
   \<and> failing_hook (store failing_auth) = (Returns (Promise (\<lambda>st'. (Inl (JStr ''denied''), st'))), store failing_auth)
   \<and> fst (login failing_auth) = Rejected (JStr ''denied'')
   \<and> trace (snd (login failing_auth)) =
        [Invoke ''login'', SetState ''busy'' (JBool True), SetState ''busy'' (JBool False),
         CallOnError (JStr ''denied'') (method_payload ''login'')]"
proof -
  let ?f = "\<lambda>st'. (Inr JUndefined :: jsval + jsval, store_setState ''busy_at_settle'' (store_getState st' ''busy'') st')"
  let ?st = "store_setState ''busy_at_call'' (store_getState (store login_auth) ''busy'') (store login_auth)"
  let ?g = "\<lambda>st'::storage. (Inl (JStr ''denied'') :: jsval + jsval, st')"
  have n1: "strategy_of demo_auth = Some demo_strategy" by (rule demo_strategy_of)
  have n2: "s_login demo_strategy = None" by (simp add: demo_strategy_def)
  have h1: "strategy_of login_auth = Some (demo_strategy\<lparr>s_login := Some login_hook\<rparr>)"
    by (simp add: strategy_of_def login_auth_def demo_auth_def getState_def store_getState_def)
  have h2: "s_login (demo_strategy\<lparr>s_login := Some login_hook\<rparr>) = Some login_hook" by simp
  have h3: "login_hook (store login_auth) = (Returns (Promise ?f), ?st)" by (simp add: login_hook_def)
  have g1: "strategy_of failing_auth = Some (demo_strategy\<lparr>s_login := Some failing_hook\<rparr>)"
    by (simp add: strategy_of_def failing_auth_def demo_auth_def getState_def store_getState_def)
  have g2: "s_login (demo_strategy\<lparr>s_login := Some failing_hook\<rparr>) = Some failing_hook" by simp
  have g3: "failing_hook (store failing_auth) = (Returns (Promise ?g), store failing_auth)"
    by (simp add: failing_hook_def)
  have t0: "trace login_auth = []" "trace failing_auth = []" "errorListeners failing_auth = []"
    by (simp_all add: login_auth_def failing_auth_def demo_auth_def)
  from login_busy_bracket [OF n1, THEN conjunct1, THEN mp, OF n2]
  have c0: "login demo_auth = (Resolved JUndefined, demo_auth)" .
  from login_busy_bracket [OF h1, where h = login_hook and f = ?f and st = ?st, THEN conjunct2, THEN conjunct2, THEN mp, OF conjI [OF h2 h3]]
  have c1: "fst (login login_auth) = Resolved JUndefined
        \<and> trace (snd (login login_auth)) = [Invoke ''login'', SetState ''busy'' (JBool True), SetState ''busy'' (JBool False)]"
    by (simp add: t0)
  from login_busy_bracket [OF g1, where h = failing_hook and f = ?g and st = "store failing_auth", THEN conjunct2, THEN conjunct2, THEN mp, OF conjI [OF g2 g3]]
  obtain r a' where l: "login failing_auth = (Rejected r, a')"
    and t: "trace a' = [Invoke ''login'', SetState ''busy'' (JBool True), SetState ''busy'' (JBool False),
                        CallOnError (JStr ''denied'') (method_payload ''login'')]"
    and r: "r = JStr ''denied'' \<or> (\<exists>l\<in>set (errorListeners a'). \<exists>st''.
               fst (l (JStr ''denied'') (method_payload ''login'') st'') = Some r)"
    by (auto simp: t0)
  have "errorListeners (snd (login failing_auth)) = []" by code_simp
  with l have "errorListeners a' = []" by simp
  with r have "r = JStr ''denied''" by simp
  with l t have c2: "fst (login failing_auth) = Rejected (JStr ''denied'')
      \<and> trace (snd (login failing_auth)) =
        [Invoke ''login'', SetState ''busy'' (JBool True), SetState ''busy'' (JBool False),
         CallOnError (JStr ''denied'') (method_payload ''login'')]" by simp
  from n1 n2 c0 h1 h2 h3 c1 g1 g3 c2 show ?thesis by simp
qed

section \<open>Reset\<close>

text \<open>
  C6. The session has a token and a refresh token and no stored scope; the strategy has
  no \<^verbatim>\<open>reset\<close>. In both files \<^verbatim>\<open>reset()\<close> throws a TypeError out of \<^verbatim>\<open>setUser(false)\<close>,
  where the data for the update endpoint are read with a \<^verbatim>\<open>split\<close>; \<^verbatim>\<open>setToken\<close> and
  \<^verbatim>\<open>setRefreshToken\<close> are not reached and both records stay as they were.
\<close>

theorem reset_without_scope:
  "fst (reset demo_env tokened_auth) = Thrown TypeError
   \<and> getToken demo_env (snd (reset demo_env tokened_auth)) (JStr ''local'') = JStr ''Bearer stale''
   \<and> getRefreshToken demo_env (snd (reset demo_env tokened_auth)) (JStr ''local'') = JStr ''r0''
   \<and> fst (reset_alt demo_env tokened_auth) = Thrown TypeError
   \<and> getToken demo_env (snd (reset_alt demo_env tokened_auth)) (JStr ''local'') = JStr ''Bearer stale''
   \<and> getRefreshToken demo_env (snd (reset_alt demo_env tokened_auth)) (JStr ''local'') = JStr ''r0''"
  by code_simp

text \<open>Reading the data for the update endpoint leaves the state as it is.\<close>

lemma getTokenScope_state: "getTokenScope e n a = (r, a') \<Longrightarrow> a' = a"
  using getTokenScope_snd [of e n a] by simp

lemma user_data_snd [simp]: "snd (user_data e u a) = a"
  by (auto simp: user_data_def with_strategy_def reading_def attempt_def seq_def ret_def
      split: option.splits sum.splits outcome.splits prod.splits dest: getTokenScope_state)

text \<open>
  With a token and a scope that are strings the call gets through: the user, the token
  and the refresh token are cleared and the call resolves. In \<^verbatim>\<open>src/lib/core/auth.js\<close>
  it leaves the chain of the update request pending; on a session that is not due for
  a refresh that chain stores nothing.
\<close>

lemma reset_with_scope:
  "fst (reset demo_env scoped_auth) = Resolved JUndefined
   \<and> user (snd (reset demo_env scoped_auth)) = JBool False
   \<and> loggedIn (snd (reset demo_env scoped_auth)) = JBool False
   \<and> getToken demo_env (snd (reset demo_env scoped_auth)) (JStr ''local'') = JBool False
   \<and> getRefreshToken demo_env (snd (reset demo_env scoped_auth)) (JStr ''local'') = JBool False
   \<and> markers (added (reset demo_env) scoped_auth) = [Sent Dispatch]
   \<and> added (setUser_pending demo_env (JBool False) scoped_auth) (snd (reset demo_env scoped_auth))
       = [LoadingFinish]
   \<and> fst (reset_alt demo_env scoped_auth) = Resolved JUndefined
   \<and> user (snd (reset_alt demo_env scoped_auth)) = JBool False
   \<and> loggedIn (snd (reset_alt demo_env scoped_auth)) = JBool False
   \<and> getToken demo_env (snd (reset_alt demo_env scoped_auth)) (JStr ''local'') = JBool False
   \<and> getRefreshToken demo_env (snd (reset_alt demo_env scoped_auth)) (JStr ''local'') = JBool False
   \<and> markers (added (reset_alt demo_env) scoped_auth) = [Sent ProfileSync]"
  by code_simp

lemma setUser_pending_expired:
  "setUser_pending refresh_env (JBool False) expired_auth =
     async (request_pending refresh_env
              (update_request refresh_env
                 (JObj [(''user'', JBool False), (''access_token'', JStr ''stale''),
                        (''refresh_token'', JStr ''r0''), (''scope'', JArr [JStr ''read''])]))
              JUndefined
              (setState ''user'' (JBool False) (setState ''loggedIn'' (JBool False) expired_auth)))"
proof -
  let ?a = "setState ''user'' (JBool False) (setState ''loggedIn'' (JBool False) expired_auth)"
  have s: "strategy_of ?a = Some demo_strategy"
    by (simp add: strategy_of_def expired_auth_def demo_auth_def store_defs)
  have "fst (user_data refresh_env (JBool False) ?a) =
          Resolved (JObj [(''user'', JBool False), (''access_token'', JStr ''stale''),
                        (''refresh_token'', JStr ''r0''), (''scope'', JArr [JStr ''read''])])"
    by code_simp
  moreover have "snd (user_data refresh_env (JBool False) ?a) = ?a"
    by simp
  ultimately have "user_data refresh_env (JBool False) ?a =
          (Resolved (JObj [(''user'', JBool False), (''access_token'', JStr ''stale''),
                        (''refresh_token'', JStr ''r0''), (''scope'', JArr [JStr ''read''])]), ?a)"
    by (metis prod.collapse)
  then show ?thesis by (simp add: setUser_pending_def fun_eq_iff)
qed

text \<open>
  On a session that is due for a refresh, the request that \<^verbatim>\<open>setUser\<close> of
  \<^verbatim>\<open>src/lib/core/auth.js\<close> starts is the token exchange. \<^verbatim>\<open>reset()\<close> returns with the
  records cleared; when the transport then answers the exchange, the pending chain
  stores the new token and refresh token over them.
\<close>

lemma reset_then_refreshed:
  "fst (reset refresh_env expired_auth) = Resolved JUndefined
   \<and> markers (added (reset refresh_env) expired_auth) = [Sent TokenExchange]
   \<and> getToken refresh_env (snd (reset refresh_env expired_auth)) (JStr ''local'') = JBool False
   \<and> getRefreshToken refresh_env (snd (reset refresh_env expired_auth)) (JStr ''local'') = JBool False
   \<and> (\<exists>evs. added (setUser_pending refresh_env (JBool False) expired_auth)
                (snd (reset refresh_env expired_auth)) =
              SetUniversal ''_token.local'' (JStr ''Bearer fresh'') #
              SetUniversal ''_refresh_token.local'' (JStr ''r1'') #
              SetUniversal ''_token.expiration.local'' (JNum 3605) #
              SetUniversal ''_token.scope.local'' (JStr ''read'') # evs)"
proof -
  let ?a = "setState ''user'' (JBool False) (setState ''loggedIn'' (JBool False) expired_auth)"
  let ?p = "JObj [(''method'', JStr ''post''), (''url'', JStr ''http://idp/token''), (''baseURL'', JBool False),
                 (''data'', JObj [(''client_id'', JStr ''cid''), (''refresh_token'', JStr ''r0''),
                                  (''grant_type'', JStr ''refresh_token'')])]"
  let ?b = "snd (reset refresh_env expired_auth)"
  have sync: "fst (reset refresh_env expired_auth) = Resolved JUndefined
   \<and> markers (added (reset refresh_env) expired_auth) = [Sent TokenExchange]
   \<and> getToken refresh_env (snd (reset refresh_env expired_auth)) (JStr ''local'') = JBool False
   \<and> getRefreshToken refresh_env (snd (reset refresh_env expired_auth)) (JStr ''local'') = JBool False"
    by code_simp
  have s: "strategy_of ?a = Some demo_strategy"
    by (simp add: strategy_of_def expired_auth_def demo_auth_def store_defs)
  have ex: "token_expired refresh_env ?a demo_strategy" by code_simp
  have p: "exchange_payload refresh_env demo_strategy (getRefreshToken refresh_env ?a (sname demo_strategy)) = Inr ?p"
    by code_simp
  have t: "transport refresh_env (requests (trace ?a)) ?p = Inr token_response"
    by (simp add: refresh_env_def)
  have r: "read_token_response token_response = Inr (JStr ''Bearer fresh'', JStr ''r1'', JNum 3600, JStr ''read'')"
    by code_simp
  have k: "token_prefix refresh_env @ js_to_string (sname demo_strategy) = ''_token.local''"
          "refresh_prefix refresh_env @ js_to_string (sname demo_strategy) = ''_refresh_token.local''"
          "token_prefix refresh_env @ ''expiration.'' @ js_to_string (sname demo_strategy) = ''_token.expiration.local''"
          "token_prefix refresh_env @ ''scope.'' @ js_to_string (sname demo_strategy) = ''_token.scope.local''"
          "js_add (JNum 3600) (JNum (seconds_of_ms (date_now refresh_env ?a))) = JNum 3605"
    by code_simp+
  from request_pending_refreshes [OF s ex p t r, where a = ?b and ep = "update_request refresh_env
                 (JObj [(''user'', JBool False), (''access_token'', JStr ''stale''),
                        (''refresh_token'', JStr ''r0''), (''scope'', JArr [JStr ''read''])])" and d = JUndefined]
  obtain evs where "added (request_pending refresh_env
              (update_request refresh_env
                 (JObj [(''user'', JBool False), (''access_token'', JStr ''stale''),
                        (''refresh_token'', JStr ''r0''), (''scope'', JArr [JStr ''read''])]))
              JUndefined ?a) ?b =
           [SetUniversal (token_prefix refresh_env @ js_to_string (sname demo_strategy)) (JStr ''Bearer fresh''),
            SetUniversal (refresh_prefix refresh_env @ js_to_string (sname demo_strategy)) (JStr ''r1''),
            SetUniversal (token_prefix refresh_env @ ''expiration.'' @ js_to_string (sname demo_strategy))
              (js_add (JNum 3600) (JNum (seconds_of_ms (date_now refresh_env ?a)))),
            SetUniversal (token_prefix refresh_env @ ''scope.'' @ js_to_string (sname demo_strategy)) (JStr ''read'')]
           @ evs"
    by blast
  then have "added (setUser_pending refresh_env (JBool False) expired_auth) ?b =
              SetUniversal ''_token.local'' (JStr ''Bearer fresh'') #
              SetUniversal ''_refresh_token.local'' (JStr ''r1'') #
              SetUniversal ''_token.expiration.local'' (JNum 3605) #
              SetUniversal ''_token.scope.local'' (JStr ''read'') # evs"
    unfolding k by (simp only: setUser_pending_expired added_async append_Cons append_Nil)
  then have "\<exists>evs. added (setUser_pending refresh_env (JBool False) expired_auth) ?b =
              SetUniversal ''_token.local'' (JStr ''Bearer fresh'') #
              SetUniversal ''_refresh_token.local'' (JStr ''r1'') #
              SetUniversal ''_token.expiration.local'' (JNum 3605) #
              SetUniversal ''_token.scope.local'' (JStr ''read'') # evs" ..
  with sync show ?thesis by blast
qed

end
